theory Spec2Isabelle
  imports Main
begin

section \<open>Characters and text\<close>

text \<open>
  Python strings are sequences of code points. The model uses \<^typ>\<open>string\<close>, whose
  characters are the code points 0 to 255; the classes below are the ones Python's
  \<^verbatim>\<open>str.isspace\<close> and the \<^verbatim>\<open>re\<close> module (\<^verbatim>\<open>\s\<close>, \<^verbatim>\<open>\d\<close>, \<^verbatim>\<open>\w\<close>) use on that range.
\<close>

definition ord :: "char \<Rightarrow> int" where
  "ord c = of_char c"

definition is_space :: "char \<Rightarrow> bool" where
  "is_space c = (let n = ord c in
     (9 \<le> n \<and> n \<le> 13) \<or> (28 \<le> n \<and> n \<le> 32) \<or> n = 133 \<or> n = 160)"

definition is_digit :: "char \<Rightarrow> bool" where
  "is_digit c = (let n = ord c in 48 \<le> n \<and> n \<le> 57)"

definition is_upper_AZ :: "char \<Rightarrow> bool" where
  "is_upper_AZ c = (let n = ord c in 65 \<le> n \<and> n \<le> 90)"

definition is_word :: "char \<Rightarrow> bool" where
  "is_word c = (let n = ord c in
     (48 \<le> n \<and> n \<le> 57) \<or> (65 \<le> n \<and> n \<le> 90) \<or> (97 \<le> n \<and> n \<le> 122) \<or> n = 95
     \<or> n = 170 \<or> n = 178 \<or> n = 179 \<or> n = 181 \<or> n = 185 \<or> n = 186
     \<or> n = 188 \<or> n = 189 \<or> n = 190
     \<or> (192 \<le> n \<and> n \<noteq> 215 \<and> n \<noteq> 247))"

definition ascii_lower :: "char \<Rightarrow> char" where
  "ascii_lower c = (if is_upper_AZ c then char_of (ord c + 32) else c)"

text \<open>\<^verbatim>\<open>str.strip()\<close>: leading and trailing whitespace removed.\<close>

definition strip :: "string \<Rightarrow> string" where
  "strip s = rev (dropWhile is_space (rev (dropWhile is_space s)))"

text \<open>\<^verbatim>\<open>re.sub(r'\s+', ' ', s)\<close>: every maximal run of whitespace becomes one space.
  The flag says whether the previous character belonged to a run already replaced.\<close>

fun sub_ws :: "bool \<Rightarrow> string \<Rightarrow> string" where
  "sub_ws in_run [] = []"
| "sub_ws in_run (c # cs) =
     (if is_space c then (if in_run then sub_ws True cs else CHR '' '' # sub_ws True cs)
      else c # sub_ws False cs)"

definition normalize_ws :: "string \<Rightarrow> string" where
  "normalize_ws s = sub_ws False s"

section \<open>The regular expressions of the parser\<close>

text \<open>
  The fragment of Python's \<^verbatim>\<open>re\<close> the parser uses: single characters from a class,
  sequence, ordered alternation, bounded repetition of a character class (greedy or
  lazy), the word boundary \<^verbatim>\<open>\b\<close> and one capture group. Matching is by
  backtracking with a continuation, in the order Python tries the alternatives.
\<close>

datatype rx =
    RChar "char \<Rightarrow> bool"
  | RSeq rx rx
  | RAlt rx rx
  | RRep "char \<Rightarrow> bool" nat "nat option" bool
  | RWordB
  | RGroup rx

text \<open>A matching state: the character before the position, the text from the position
  on, and the text captured by group 1 so far.\<close>

type_synonym mstate = "char option \<times> string \<times> string option"

definition word_boundary :: "char option \<Rightarrow> string \<Rightarrow> bool" where
  "word_boundary prev rest =
     ((case prev of None \<Rightarrow> False | Some c \<Rightarrow> is_word c)
        \<noteq> (case rest of [] \<Rightarrow> False | c # _ \<Rightarrow> is_word c))"

definition run_length :: "(char \<Rightarrow> bool) \<Rightarrow> nat option \<Rightarrow> string \<Rightarrow> nat" where
  "run_length p hi s =
     (let n = length (takeWhile p s) in case hi of None \<Rightarrow> n | Some h \<Rightarrow> min h n)"

definition advance :: "nat \<Rightarrow> mstate \<Rightarrow> mstate" where
  "advance n st = (case st of (prev, rest, g) \<Rightarrow>
     (if n = 0 then prev else Some (rest ! (n - 1)), drop n rest, g))"

text \<open>Greedy repetition tries the longest count first and gives characters back one
  at a time; lazy repetition starts at the minimum and takes one more each time.\<close>

primrec try_down :: "(nat \<Rightarrow> 'r option) \<Rightarrow> nat \<Rightarrow> nat \<Rightarrow> 'r option" where
  "try_down f lo 0 = (if 0 < lo then None else f 0)"
| "try_down f lo (Suc n) =
     (if Suc n < lo then None
      else case f (Suc n) of Some r \<Rightarrow> Some r | None \<Rightarrow> try_down f lo n)"

primrec try_up :: "(nat \<Rightarrow> 'r option) \<Rightarrow> nat \<Rightarrow> nat \<Rightarrow> 'r option" where
  "try_up f c 0 = f c"
| "try_up f c (Suc d) = (case f c of Some r \<Rightarrow> Some r | None \<Rightarrow> try_up f (Suc c) d)"

primrec rmatch :: "rx \<Rightarrow> (mstate \<Rightarrow> 'r option) \<Rightarrow> mstate \<Rightarrow> 'r option" where
  "rmatch (RChar p) k st =
     (case st of (prev, rest, g) \<Rightarrow>
        (case rest of [] \<Rightarrow> None | c # cs \<Rightarrow> if p c then k (Some c, cs, g) else None))"
| "rmatch (RSeq a b) k st = rmatch a (rmatch b k) st"
| "rmatch (RAlt a b) k st =
     (case rmatch a k st of Some r \<Rightarrow> Some r | None \<Rightarrow> rmatch b k st)"
| "rmatch (RRep p lo hi greedy) k st =
     (let n = run_length p hi (fst (snd st)) in
      if n < lo then None
      else if greedy then try_down (\<lambda>c. k (advance c st)) lo n
      else try_up (\<lambda>c. k (advance c st)) lo (n - lo))"
| "rmatch RWordB k st = (if word_boundary (fst st) (fst (snd st)) then k st else None)"
| "rmatch (RGroup a) k st =
     rmatch a (\<lambda>st'. case st' of (prev', rest', _) \<Rightarrow>
        k (prev', rest', Some (take (length (fst (snd st)) - length rest') (fst (snd st))))) st"

text \<open>A match that starts at the given position: the matched text (group 0) and
  group 1.\<close>

definition match_at :: "rx \<Rightarrow> char option \<Rightarrow> string \<Rightarrow> (string \<times> string option) option" where
  "match_at r prev s =
     (case rmatch r Some (prev, s, None) of
        Some (_, rest', g) \<Rightarrow> Some (take (length s - length rest') s, g)
      | None \<Rightarrow> None)"

text \<open>\<^verbatim>\<open>re.search\<close>: the match at the leftmost start position that has one. The parser
  uses \<^verbatim>\<open>re.findall\<close> for the HS code and reads only whether the list is empty and its
  first element, which is group 1 of that same leftmost match.\<close>

fun search_from :: "rx \<Rightarrow> char option \<Rightarrow> string \<Rightarrow> (string \<times> string option) option" where
  "search_from r prev [] = match_at r prev []"
| "search_from r prev (c # cs) =
     (case match_at r prev (c # cs) of
        Some m \<Rightarrow> Some m
      | None \<Rightarrow> search_from r (Some c) cs)"

definition re_search :: "rx \<Rightarrow> string \<Rightarrow> (string \<times> string option) option" where
  "re_search r s = search_from r None s"

definition group0 :: "string \<times> string option \<Rightarrow> string" where
  "group0 m = fst m"

definition group1 :: "string \<times> string option \<Rightarrow> string" where
  "group1 m = (case snd m of Some g \<Rightarrow> g | None \<Rightarrow> [])"

fun rseq :: "rx list \<Rightarrow> rx" where
  "rseq [] = RRep (\<lambda>_. False) 0 None True"
| "rseq [a] = a"
| "rseq (a # b # bs) = RSeq a (rseq (b # bs))"

text \<open>A literal under \<^verbatim>\<open>re.IGNORECASE\<close>; all literals of the parser are ASCII letters.\<close>

definition ilit :: "string \<Rightarrow> rx" where
  "ilit s = rseq (map (\<lambda>x. RChar (\<lambda>c. ascii_lower c = ascii_lower x)) s)"

definition lit :: "string \<Rightarrow> rx" where
  "lit s = rseq (map (\<lambda>x. RChar (\<lambda>c. c = x)) s)"

definition colon_or_space :: "char \<Rightarrow> bool" where
  "colon_or_space c = (c = CHR '':'' \<or> is_space c)"

text \<open>\<^verbatim>\<open>\bHS[:\s]*([0-9]{4,10})\b\<close> with IGNORECASE\<close>

definition hs_re :: rx where
  "hs_re = rseq [RWordB, ilit ''HS'', RRep colon_or_space 0 None True,
                 RGroup (RRep is_digit 4 (Some 10) True), RWordB]"

text \<open>\<^verbatim>\<open>\b([0-9]{6})\b\<close>\<close>

definition hs_fallback_re :: rx where
  "hs_fallback_re = rseq [RWordB, RGroup (RRep is_digit 6 (Some 6) True), RWordB]"

text \<open>\<^verbatim>\<open>\b(AED|USD|EUR|GBP|JPY|CHF|SAR|INR)\b\<close>\<close>

definition currency_re :: rx where
  "currency_re = rseq [RWordB,
     RGroup (RAlt (lit ''AED'') (RAlt (lit ''USD'') (RAlt (lit ''EUR'') (RAlt (lit ''GBP'')
       (RAlt (lit ''JPY'') (RAlt (lit ''CHF'') (RAlt (lit ''SAR'') (lit ''INR'')))))))),
     RWordB]"

text \<open>The value pattern: an optional currency symbol from the class of pound, euro and
  dollar sign, then \<^verbatim>\<open>\s?[\d\.,]{3,}\b\<close>, all inside group 1. The pound sign is code point
  163; the euro sign is not among the code points below 256.\<close>

definition currency_symbol :: "char \<Rightarrow> bool" where
  "currency_symbol c = (c = char_of (163 :: int) \<or> c = CHR ''$'')"

definition amount_char :: "char \<Rightarrow> bool" where
  "amount_char c = (is_digit c \<or> c = CHR ''.'' \<or> c = CHR '','')"

definition value_re :: rx where
  "value_re = RGroup (rseq [RRep currency_symbol 0 (Some 1) True, RRep is_space 0 (Some 1) True,
                            RRep amount_char 3 None True, RWordB])"

text \<open>\<^verbatim>\<open>\b([A-Z]{4}\d{7})\b\<close>\<close>

definition container_re :: rx where
  "container_re = rseq [RWordB,
     RGroup (RSeq (RRep is_upper_AZ 4 (Some 4) True) (RRep is_digit 7 (Some 7) True)), RWordB]"

text \<open>\<^verbatim>\<open>\b(AWB[:\s-]*\w+|\d{3}\s?\d{8}|\bAWB[\w-]{3,}\b)\b\<close> with IGNORECASE\<close>

definition awb_sep :: "char \<Rightarrow> bool" where
  "awb_sep c = (c = CHR '':'' \<or> is_space c \<or> c = CHR ''-'')"

definition word_or_hyphen :: "char \<Rightarrow> bool" where
  "word_or_hyphen c = (is_word c \<or> c = CHR ''-'')"

definition awb_re :: rx where
  "awb_re = rseq [RWordB,
     RGroup (RAlt (rseq [ilit ''AWB'', RRep awb_sep 0 None True, RRep is_word 1 None True])
            (RAlt (rseq [RRep is_digit 3 (Some 3) True, RRep is_space 0 (Some 1) True,
                         RRep is_digit 8 (Some 8) True])
                  (rseq [RWordB, ilit ''AWB'', RRep word_or_hyphen 3 None True, RWordB]))),
     RWordB]"

text \<open>\<^verbatim>\<open>LABEL[:\s]*(.{1,80}?)\s{2,}\<close> with IGNORECASE; the dot matches every character
  but the newline.\<close>

definition not_newline :: "char \<Rightarrow> bool" where
  "not_newline c = (c \<noteq> CHR 0x0A)"

definition label_columns_re :: "string \<Rightarrow> rx" where
  "label_columns_re label = rseq [ilit label, RRep colon_or_space 0 None True,
     RGroup (RRep not_newline 1 (Some 80) False), RRep is_space 2 None True]"

text \<open>\<^verbatim>\<open>LABEL[:\s]*(\w[\w\s\,\-\.]{1,80})\<close> with IGNORECASE\<close>

definition name_char :: "char \<Rightarrow> bool" where
  "name_char c = (is_word c \<or> is_space c \<or> c = CHR '','' \<or> c = CHR ''-'' \<or> c = CHR ''.'')"

definition label_name_re :: "string \<Rightarrow> rx" where
  "label_name_re label = rseq [ilit label, RRep colon_or_space 0 None True,
     RGroup (RSeq (RChar is_word) (RRep name_char 1 (Some 80) True))]"

section \<open>Dictionaries\<close>

text \<open>A Python dict is an association list in insertion order with no key twice:
  assignment to a present key replaces its value in place, assignment to a new key
  appends.\<close>

type_synonym ('k, 'v) dict = "('k \<times> 'v) list"

definition dict_get :: "('k, 'v) dict \<Rightarrow> 'k \<Rightarrow> 'v option" where
  "dict_get d k = map_of d k"

primrec dict_set :: "('k, 'v) dict \<Rightarrow> 'k \<Rightarrow> 'v \<Rightarrow> ('k, 'v) dict" where
  "dict_set [] k v = [(k, v)]"
| "dict_set (p # ps) k v = (if fst p = k then (k, v) # ps else p # dict_set ps k v)"

section \<open>The metadata parser\<close>

text \<open>\<^verbatim>\<open>re.sub(r'[^\d\.]', '', v)\<close>\<close>

definition clean_value :: "string \<Rightarrow> string" where
  "clean_value v = filter (\<lambda>c. is_digit c \<or> c = CHR ''.'') v"

text \<open>The consignee and shipper rule: the column pattern first, else the name pattern,
  both on the text as given.\<close>

definition parse_label :: "string \<Rightarrow> string \<Rightarrow> string option" where
  "parse_label label s =
     (case re_search (label_columns_re label) s of
        Some m \<Rightarrow> Some (strip (group1 m))
      | None \<Rightarrow> (case re_search (label_name_re label) s of
                   Some m \<Rightarrow> Some (strip (group1 m))
                 | None \<Rightarrow> None))"

definition parse_hs_code :: "string \<Rightarrow> string option" where
  "parse_hs_code s_norm =
     (case re_search hs_re s_norm of
        Some m \<Rightarrow> Some (group1 m)
      | None \<Rightarrow> (case re_search hs_fallback_re s_norm of
                   Some m \<Rightarrow> Some (group1 m)
                 | None \<Rightarrow> None))"

definition parse_value :: "string \<Rightarrow> string option" where
  "parse_value s_norm =
     (case re_search value_re s_norm of
        Some m \<Rightarrow> (let v_clean = clean_value (group1 m) in
                   if v_clean \<noteq> [] then Some v_clean else None)
      | None \<Rightarrow> None)"

definition put :: "string \<Rightarrow> string option \<Rightarrow> (string, string) dict \<Rightarrow> (string, string) dict" where
  "put k r res = (case r of Some v \<Rightarrow> dict_set res k v | None \<Rightarrow> res)"

definition parse_text_for_metadata :: "string \<Rightarrow> (string, string) dict" where
  "parse_text_for_metadata text =
     (if text = [] then []
      else
        let s = text;
            s_norm = normalize_ws s;
            res = [];
            res = put ''hs_code'' (parse_hs_code s_norm) res;
            res = put ''currency'' (map_option group1 (re_search currency_re s_norm)) res;
            res = put ''value'' (parse_value s_norm) res;
            res = put ''container_number'' (map_option group1 (re_search container_re s_norm)) res;
            res = put ''bol_awb_number'' (map_option (strip \<circ> group0) (re_search awb_re s_norm)) res;
            res = put ''consignee'' (parse_label ''Consignee'' s) res;
            res = put ''shipper'' (parse_label ''Shipper'' s) res
        in res)"

section \<open>Metadata values\<close>

text \<open>
  Document metadata is a JSON object. The values modelled are the scalars null,
  booleans, integers and strings; \<open>truthy\<close> is Python's truth value and \<open>py_str\<close> is
  \<^verbatim>\<open>str()\<close> on them. JSON floats and nested containers are outside the model.
\<close>

datatype jval = JNull | JBool bool | JInt int | JStr string

fun truthy :: "jval \<Rightarrow> bool" where
  "truthy JNull = False"
| "truthy (JBool b) = b"
| "truthy (JInt i) = (i \<noteq> 0)"
| "truthy (JStr s) = (s \<noteq> [])"

definition digit_char :: "nat \<Rightarrow> char" where
  "digit_char d = char_of (48 + d)"

fun str_nat :: "nat \<Rightarrow> string" where
  "str_nat n = (if n < 10 then [digit_char n] else str_nat (n div 10) @ [digit_char (n mod 10)])"

definition str_int :: "int \<Rightarrow> string" where
  "str_int i = (if i < 0 then CHR ''-'' # str_nat (nat (- i)) else str_nat (nat i))"

fun py_str :: "jval \<Rightarrow> string" where
  "py_str JNull = ''None''"
| "py_str (JBool b) = (if b then ''True'' else ''False'')"
| "py_str (JInt i) = str_int i"
| "py_str (JStr s) = s"

text \<open>\<^verbatim>\<open>sep.join(xs)\<close>\<close>

fun py_join :: "string \<Rightarrow> string list \<Rightarrow> string" where
  "py_join sep [] = []"
| "py_join sep [x] = x"
| "py_join sep (x # y # ys) = x @ sep @ py_join sep (y # ys)"

text \<open>The rendering of a list of field names inside an f-string: \<^verbatim>\<open>['a', 'b']\<close>. Field
  names come from the required-field tables and hold no quote, backslash or
  unprintable character, so \<^verbatim>\<open>repr\<close> only adds the single quotes.\<close>

definition py_repr_list :: "string list \<Rightarrow> string" where
  "py_repr_list xs = ''['' @ py_join '', '' (map (\<lambda>x. [CHR 0x27] @ x @ [CHR 0x27]) xs) @ '']''"

section \<open>Documents, files and the store\<close>

datatype doc_type = Invoice | PackingList | BolAwb | DeliveryOrder

fun type_name :: "doc_type \<Rightarrow> string" where
  "type_name Invoice = ''invoice''"
| "type_name PackingList = ''packing_list''"
| "type_name BolAwb = ''bol_awb''"
| "type_name DeliveryOrder = ''delivery_order''"

datatype status = Pending | Running | Done | Failed

text \<open>One entry of the local dict \<^verbatim>\<open>found\<close>: \<^verbatim>\<open>{'doc_id': i, 'matched': True}\<close> is
  \<open>(Some i, True)\<close> and \<^verbatim>\<open>{'matched': False}\<close> is \<open>(None, False)\<close>.\<close>

type_synonym found_entry = "nat option \<times> bool"

text \<open>The dict \<^verbatim>\<open>results\<close>; the keys that only one of the two return paths sets are
  optional.\<close>

record results =
  missing_files :: "string list"
  ready_for_approval :: bool
  reason :: "string option"
  message :: string
  match_keys :: "(string, string) dict option"
  found_types :: "(doc_type, found_entry) dict option"
  missing_types :: "doc_type list option"

record trade_document =
  doc_id :: nat
  doc_type :: doc_type
  uploader :: nat
  metadata :: "(string, jval) dict"
  last_validation :: "results option"

record document_file =
  file_id :: nat
  document :: nat
  field_name :: string
  extraction_status :: status
  extracted_text :: "string option"

text \<open>An audit row: the action and the error text it carries, if any.\<close>

type_synonym audit_entry = "string \<times> string option"

record db =
  documents :: "trade_document list"
  files :: "document_file list"
  validation_results :: "(nat \<times> results) list"
  audit_log :: "audit_entry list"

section \<open>Required files per document type\<close>

text \<open>\<^verbatim>\<open>REQUIRED_FIELDS\<close> of \<^verbatim>\<open>tasks.py\<close>, used by the validation engine.\<close>

fun tasks_REQUIRED_FIELDS :: "doc_type \<Rightarrow> string list" where
  "tasks_REQUIRED_FIELDS Invoice = [''hs_code'', ''goods_description'', ''value'', ''currency'']"
| "tasks_REQUIRED_FIELDS PackingList = [''packing_list_file'']"
| "tasks_REQUIRED_FIELDS BolAwb = [''bol_awb_file'']"
| "tasks_REQUIRED_FIELDS DeliveryOrder = [''delivery_order_file'']"

text \<open>\<^verbatim>\<open>REQUIRED_FIELDS\<close> of \<^verbatim>\<open>documents/views.py\<close>, used by the upload view.\<close>

fun views_REQUIRED_FIELDS :: "doc_type \<Rightarrow> string list" where
  "views_REQUIRED_FIELDS Invoice =
     [''hs_code'', ''goods_description'', ''unit_of_measure'', ''quantity'', ''weight'', ''value'',
      ''currency'']"
| "views_REQUIRED_FIELDS PackingList =
     [''hs_code'', ''goods_description'', ''unit_of_measure'', ''quantity'', ''gross_weight'',
      ''net_weight'', ''number_of_packages'']"
| "views_REQUIRED_FIELDS BolAwb =
     [''shipper'', ''consignee'', ''hs_code'', ''weight'', ''number_of_packages'', ''bol_awb_number'']"
| "views_REQUIRED_FIELDS DeliveryOrder =
     [''consignee'', ''container_number'', ''port_of_discharge'', ''currency'', ''value'', ''hs_code'']"

text \<open>The upload view: the required fields with no file part of that name in the
  request.\<close>

definition upload_missing_files :: "doc_type \<Rightarrow> string list \<Rightarrow> string list" where
  "upload_missing_files dt request_files =
     (let required = views_REQUIRED_FIELDS dt in filter (\<lambda>f. f \<notin> set request_files) required)"

text \<open>The validation engine: the required fields with no DocumentFile of the document.\<close>

definition validation_missing_files :: "db \<Rightarrow> trade_document \<Rightarrow> string list" where
  "validation_missing_files d doc =
     (let required = tasks_REQUIRED_FIELDS (doc_type doc);
          existing_files = set (map field_name (filter (\<lambda>f. document f = doc_id doc) (files d)))
      in filter (\<lambda>f. f \<notin> existing_files) required)"

section \<open>The cross-document matcher and the validation engine\<close>

definition possible_keys :: "string list" where
  "possible_keys = [''hs_code'', ''consignee'', ''container_number'', ''value'', ''currency'',
                    ''bol_awb_number'', ''shipper'']"

definition required_types :: "doc_type list" where
  "required_types = [Invoice, PackingList, BolAwb, DeliveryOrder]"

definition build_match_keys :: "(string, jval) dict \<Rightarrow> (string, string) dict" where
  "build_match_keys doc_meta =
     List.map_filter (\<lambda>k. case dict_get doc_meta k of
                            None \<Rightarrow> None
                          | Some x \<Rightarrow> if strip (py_str x) \<noteq> [] then Some (k, strip (py_str x))
                                      else None) possible_keys"

definition all_keys_present :: "(string, string) dict \<Rightarrow> (string, jval) dict \<Rightarrow> bool" where
  "all_keys_present mk cand_meta =
     list_all (\<lambda>k. case dict_get cand_meta k of
                     None \<Rightarrow> False
                   | Some x \<Rightarrow> strip (py_str x) \<noteq> []) (map fst mk)"

text \<open>The inner loop over \<^verbatim>\<open>match_keys.items()\<close>; a missing key reads as the empty
  string, as \<^verbatim>\<open>cand_meta.get(k, '')\<close> does.\<close>

fun has_mismatch :: "(string, string) dict \<Rightarrow> (string, jval) dict \<Rightarrow> bool" where
  "has_mismatch [] cand_meta = False"
| "has_mismatch ((k, v) # kvs) cand_meta =
     (if strip (py_str (case dict_get cand_meta k of None \<Rightarrow> JStr [] | Some x \<Rightarrow> x)) \<noteq> v then True
      else has_mismatch kvs cand_meta)"

text \<open>The loop over the candidates: the first one that has every key and no mismatch.\<close>

fun find_candidate :: "(string, string) dict \<Rightarrow> trade_document list \<Rightarrow> trade_document option" where
  "find_candidate mk [] = None"
| "find_candidate mk (cand # cands) =
     (let cand_meta = metadata cand in
      if \<not> all_keys_present mk cand_meta then find_candidate mk cands
      else if \<not> has_mismatch mk cand_meta then Some cand
      else find_candidate mk cands)"

definition candidates_of :: "db \<Rightarrow> trade_document \<Rightarrow> doc_type \<Rightarrow> trade_document list" where
  "candidates_of d doc dtype =
     filter (\<lambda>c. uploader c = uploader doc \<and> doc_type c = dtype \<and> doc_id c \<noteq> doc_id doc)
            (documents d)"

text \<open>The loop over \<^verbatim>\<open>required_types\<close>, with the dict \<^verbatim>\<open>found\<close> and the list
  \<^verbatim>\<open>missing_types\<close> as accumulators.\<close>

fun match_types :: "db \<Rightarrow> trade_document \<Rightarrow> (string, string) dict \<Rightarrow> doc_type list \<Rightarrow>
    (doc_type, found_entry) dict \<times> doc_type list \<Rightarrow> (doc_type, found_entry) dict \<times> doc_type list" where
  "match_types d doc mk [] acc = acc"
| "match_types d doc mk (dtype # rest) (found, missing) =
     (if doc_type doc = dtype
      then match_types d doc mk rest (dict_set found dtype (Some (doc_id doc), True), missing)
      else (case find_candidate mk (candidates_of d doc dtype) of
              Some matched_candidate \<Rightarrow>
                match_types d doc mk rest
                  (dict_set found dtype (Some (doc_id matched_candidate), True), missing)
            | None \<Rightarrow>
                match_types d doc mk rest (dict_set found dtype (None, False), missing @ [dtype])))"

text \<open>The matcher, lines 214 to 246: the match keys, the dict \<^verbatim>\<open>found\<close> and the list
  \<^verbatim>\<open>missing_types\<close>.\<close>

definition run_matcher :: "db \<Rightarrow> trade_document \<Rightarrow>
    (string, string) dict \<times> (doc_type, found_entry) dict \<times> doc_type list" where
  "run_matcher d doc =
     (let mk = build_match_keys (metadata doc);
          (found, mt) = match_types d doc mk required_types ([], [])
      in (mk, found, mt))"

definition success_message :: string where
  "success_message = ''All related documents found and consistent. Ready for approval.''"

definition failure_message :: "string list \<Rightarrow> doc_type list \<Rightarrow> string" where
  "failure_message mf mt =
     (let msgs = [];
          msgs = (if mf \<noteq> [] then msgs @ [''Missing files for this document: '' @ py_repr_list mf]
                  else msgs);
          msgs = (if mt \<noteq> []
                  then msgs @ [''Missing or unmatched document types: ''
                                 @ py_join '', '' (map type_name mt)]
                  else msgs)
      in py_join '' | '' msgs)"

text \<open>The dict \<^verbatim>\<open>results\<close> that \<^verbatim>\<open>run_validation_for_document\<close> computes for a document
  it has fetched; without metadata the matcher is not run.\<close>

definition compute_results :: "db \<Rightarrow> trade_document \<Rightarrow> results" where
  "compute_results d doc =
     (let doc_meta = metadata doc;
          mf = validation_missing_files d doc
      in if doc_meta = []
         then \<lparr>missing_files = mf, ready_for_approval = False, reason = Some ''metadata_missing'',
               message = ''Document has no metadata.'', match_keys = None, found_types = None,
               missing_types = None\<rparr>
         else
           let (mk, found, mt) = run_matcher d doc;
               ready = (length mf = 0 \<and> length mt = 0)
           in \<lparr>missing_files = mf, ready_for_approval = ready, reason = None,
                message = (if ready then success_message else failure_message mf mt),
                match_keys = Some mk,
                found_types = Some (filter (\<lambda>(k, v). snd v) found),
                missing_types = Some mt\<rparr>)"

section \<open>Text extraction\<close>

text \<open>An exception, with the text \<^verbatim>\<open>str(exc)\<close> gives. What the PDF, imaging and
  recognition libraries and the store do is given from outside: every call that can
  raise has its outcome in an environment.\<close>

datatype exn = Exn string

fun exn_text :: "exn \<Rightarrow> string" where
  "exn_text (Exn m) = m"

definition join_pages :: "string list \<Rightarrow> string" where
  "join_pages parts = strip (py_join [CHR 0x0A] parts)"

text \<open>\<^verbatim>\<open>extract_text_with_pymupdf\<close>: the page texts the library yields, or its failure,
  which gives the empty string.\<close>

definition extract_text_with_pymupdf :: "exn + string list \<Rightarrow> string" where
  "extract_text_with_pymupdf pages =
     (case pages of
        Inl _ \<Rightarrow> []
      | Inr txts \<Rightarrow> join_pages (filter (\<lambda>txt. txt \<noteq> []) txts))"

text \<open>\<^verbatim>\<open>ocr_pdf_images\<close>: creating the temporary directory may raise, and nothing
  catches that; the texts of the pages recognised before the page stage stopped stay in
  \<^verbatim>\<open>text_parts\<close>; when the page stage raised, the file is read as one image.\<close>

record ocr_env =
  tmpdir_error :: "exn option"
  page_texts :: "string list"
  pages_failed :: bool
  image_text :: "exn + string"

definition ocr_pdf_images :: "ocr_env \<Rightarrow> exn + string" where
  "ocr_pdf_images oe =
     (case tmpdir_error oe of
        Some x \<Rightarrow> Inl x
      | None \<Rightarrow>
          (if pages_failed oe
           then (case image_text oe of
                   Inl _ \<Rightarrow> Inr []
                 | Inr t \<Rightarrow> Inr (join_pages (filter (\<lambda>t. t \<noteq> []) (page_texts oe @ [t]))))
           else Inr (join_pages (filter (\<lambda>t. t \<noteq> []) (page_texts oe)))))"

datatype event = StatusSaved status | OcrCalled | AuditAttempt string

text \<open>Lines 139 to 143 of the task: the direct text, and the recognised text when the
  direct one is empty or short.\<close>

definition choose_text :: "string \<Rightarrow> ocr_env \<Rightarrow> event list \<times> (exn + string)" where
  "choose_text extracted oe =
     (if extracted = [] \<or> length (strip extracted) < 30
      then (case ocr_pdf_images oe of
              Inl x \<Rightarrow> ([OcrCalled], Inl x)
            | Inr ocr_text \<Rightarrow>
                ([OcrCalled],
                 Inr (if ocr_text \<noteq> [] \<and> length (strip ocr_text) > length extracted
                      then ocr_text else extracted)))
      else ([], Inr extracted))"

section \<open>The validation run\<close>

record venv =
  fetch_error :: "exn option"
  result_create_fails :: bool
  save_validation_error :: "exn option"
  validation_audit_fails :: bool

definition update_document :: "db \<Rightarrow> nat \<Rightarrow> (trade_document \<Rightarrow> trade_document) \<Rightarrow> db" where
  "update_document d i f = d\<lparr>documents := map (\<lambda>x. if doc_id x = i then f x else x) (documents d)\<rparr>"

definition update_file :: "db \<Rightarrow> nat \<Rightarrow> (document_file \<Rightarrow> document_file) \<Rightarrow> db" where
  "update_file d i f = d\<lparr>files := map (\<lambda>x. if file_id x = i then f x else x) (files d)\<rparr>"

text \<open>An audit write is best effort: a failure is swallowed.\<close>

definition write_audit :: "bool \<Rightarrow> audit_entry \<Rightarrow> db \<Rightarrow> db" where
  "write_audit fails a d = (if fails then d else d\<lparr>audit_log := audit_log d @ [a]\<rparr>)"

text \<open>\<^verbatim>\<open>run_validation_for_document\<close>: \<open>Inr None\<close> is the return of \<^verbatim>\<open>None\<close> for an
  unknown id; \<open>Inl\<close> is an exception of a store operation that no handler of the
  function covers.\<close>

definition run_validation_for_document :: "venv \<Rightarrow> db \<Rightarrow> nat \<Rightarrow> db \<times> (exn + results option)" where
  "run_validation_for_document ve d document_id =
     (case fetch_error ve of
        Some x \<Rightarrow> (d, Inl x)
      | None \<Rightarrow>
          (case find (\<lambda>x. doc_id x = document_id) (documents d) of
             None \<Rightarrow> (d, Inr None)
           | Some doc \<Rightarrow>
               let res = compute_results d doc;
                   d1 = (if result_create_fails ve then d
                         else d\<lparr>validation_results := validation_results d @ [(document_id, res)]\<rparr>)
               in (case save_validation_error ve of
                     Some x \<Rightarrow> (d1, Inl x)
                   | None \<Rightarrow>
                       let d2 = update_document d1 document_id (\<lambda>x. x\<lparr>last_validation := Some res\<rparr>);
                           d3 = write_audit (validation_audit_fails ve) (''run_validation_auto'', None) d2
                       in (d3, Inr (Some res)))))"

section \<open>The extraction pipeline task\<close>

text \<open>The loop of lines 154 to 157 over \<^verbatim>\<open>parsed.items()\<close>, with the dict \<^verbatim>\<open>meta\<close> and
  the flag \<^verbatim>\<open>changed\<close>.\<close>

fun merge_parsed :: "(string, jval) dict \<Rightarrow> bool \<Rightarrow> (string \<times> string) list \<Rightarrow> (string, jval) dict \<times> bool" where
  "merge_parsed meta changed [] = (meta, changed)"
| "merge_parsed meta changed ((k, v) # kvs) =
     (if (case dict_get meta k of None \<Rightarrow> True | Some x \<Rightarrow> \<not> truthy x \<and> v \<noteq> [])
      then merge_parsed (dict_set meta k (JStr v)) True kvs
      else merge_parsed meta changed kvs)"

record env =
  lookup_error :: "exn option"
  save_running_error :: "exn option"
  file_path_error :: "exn option"
  pdf_pages :: "exn + string list"
  ocr :: ocr_env
  save_done_error :: "exn option"
  save_metadata_error :: "exn option"
  audit_fails :: bool
  validation :: venv
  save_failed_error :: "exn option"

datatype payload =
    NotFound nat
  | TaskDone nat "(string, string) dict"
  | TaskFailed string

text \<open>Lines 150 to 164: the merge of the parsed fields into the metadata of the owning
  document. The result is the store, the events and the exception raised, if any.\<close>

definition merge_step :: "env \<Rightarrow> db \<Rightarrow> document_file \<Rightarrow> (string, string) dict \<Rightarrow>
    db \<times> event list \<times> exn option" where
  "merge_step e d df parsed =
     (if parsed = [] then (d, [], None)
      else (case find (\<lambda>x. doc_id x = document df) (documents d) of
              None \<Rightarrow> (d, [], None)
            | Some doc \<Rightarrow>
                let (meta, changed) = merge_parsed (metadata doc) False parsed
                in if changed
                   then (case save_metadata_error e of
                           Some x \<Rightarrow> (d, [], Some x)
                         | None \<Rightarrow>
                             (write_audit (audit_fails e) (''metadata_auto_extracted'', None)
                                (update_document d (doc_id doc) (\<lambda>x. x\<lparr>metadata := meta\<rparr>)),
                              [AuditAttempt ''metadata_auto_extracted''], None))
                   else (d, [], None)))"

text \<open>The body of the \<^verbatim>\<open>try\<close> block, lines 139 to 168.\<close>

definition task_body :: "env \<Rightarrow> db \<Rightarrow> document_file \<Rightarrow> db \<times> event list \<times> (exn + payload)" where
  "task_body e d df =
     (let extracted = extract_text_with_pymupdf (pdf_pages e);
          (ev1, chosen) = choose_text extracted (ocr e)
      in case chosen of
           Inl x \<Rightarrow> (d, ev1, Inl x)
         | Inr extracted \<Rightarrow>
             (case save_done_error e of
                Some x \<Rightarrow> (d, ev1, Inl x)
              | None \<Rightarrow>
                  let d1 = update_file d (file_id df)
                             (\<lambda>f. f\<lparr>extraction_status := Done,
                                    extracted_text := Some (take 100000 extracted)\<rparr>);
                      ev2 = ev1 @ [StatusSaved Done];
                      parsed = parse_text_for_metadata extracted
                  in (case merge_step e d1 df parsed of
                        (d2, ev3, Some x) \<Rightarrow> (d2, ev2 @ ev3, Inl x)
                      | (d2, ev3, None) \<Rightarrow>
                          (case run_validation_for_document (validation e) d2 (document df) of
                             (d3, Inl x) \<Rightarrow> (d3, ev2 @ ev3, Inl x)
                           | (d3, Inr _) \<Rightarrow>
                               (d3, ev2 @ ev3, Inr (TaskDone (file_id df) parsed))))))"

text \<open>\<^verbatim>\<open>extract_text_and_parse_task\<close>. \<open>Inl\<close> in the result is an exception that leaves
  the task; \<open>Inr\<close> is the payload it returns.\<close>

definition extract_text_and_parse_task :: "env \<Rightarrow> db \<Rightarrow> nat \<Rightarrow> db \<times> event list \<times> (exn + payload)" where
  "extract_text_and_parse_task e d document_file_id =
     (case lookup_error e of
        Some x \<Rightarrow> (d, [], Inl x)
      | None \<Rightarrow>
          (case find (\<lambda>f. file_id f = document_file_id) (files d) of
             None \<Rightarrow> (d, [], Inr (NotFound document_file_id))
           | Some df \<Rightarrow>
               (case save_running_error e of
                  Some x \<Rightarrow> (d, [], Inl x)
                | None \<Rightarrow>
                    let d1 = update_file d document_file_id (\<lambda>f. f\<lparr>extraction_status := Running\<rparr>);
                        ev = [StatusSaved Running]
                    in (case file_path_error e of
                          Some x \<Rightarrow> (d1, ev, Inl x)
                        | None \<Rightarrow>
                            (case task_body e d1 df of
                               (d2, ev2, Inr p) \<Rightarrow> (d2, ev @ ev2, Inr p)
                             | (d2, ev2, Inl exc) \<Rightarrow>
                                 (case save_failed_error e of
                                    Some x \<Rightarrow> (d2, ev @ ev2, Inl x)
                                  | None \<Rightarrow>
                                      (write_audit (audit_fails e)
                                         (''extraction_failed'', Some (exn_text exc))
                                         (update_file d2 document_file_id
                                            (\<lambda>f. f\<lparr>extraction_status := Failed\<rparr>)),
                                       ev @ ev2 @ [StatusSaved Failed, AuditAttempt ''extraction_failed''],
                                       Inr (TaskFailed (exn_text exc)))))))))"

text \<open>The statuses a run stores for the file, in order.\<close>

definition status_writes :: "event list \<Rightarrow> status list" where
  "status_writes evs = List.map_filter (\<lambda>ev. case ev of StatusSaved s \<Rightarrow> Some s | _ \<Rightarrow> None) evs"

section \<open>Statements of the specification\<close>

text \<open>Blank, as the specification uses the word: null, or a string that is empty after
  trimming. A number or a boolean is a populated value.\<close>

fun blank :: "jval \<Rightarrow> bool" where
  "blank JNull = True"
| "blank (JBool b) = False"
| "blank (JInt i) = False"
| "blank (JStr s) = (strip s = [])"

text \<open>An existing value for which the test of line 155, Python's truth value, says what
  blank says: null, a string that is empty or not blank after trimming, a non-zero
  number, true. The test also takes a stored zero and a stored false for blank and a
  string of whitespace only for populated; the merge rule below is stated for the values
  on which the two agree.\<close>

definition blank_as_tested :: "jval \<Rightarrow> bool" where
  "blank_as_tested x = (blank x = (\<not> truthy x))"

text \<open>The merge as the specification words it: the existing mapping, with the parsed
  value for every parsed key that is absent or blank in it.\<close>

definition spec_merge :: "(string \<rightharpoonup> jval) \<Rightarrow> (string \<rightharpoonup> string) \<Rightarrow> (string \<rightharpoonup> jval)" where
  "spec_merge M P =
     (\<lambda>k. case P k of
             None \<Rightarrow> M k
           | Some v \<Rightarrow> (case M k of
                          None \<Rightarrow> Some (JStr v)
                        | Some x \<Rightarrow> if blank x then Some (JStr v) else Some x))"

text \<open>The merge rule with the guard of the code: a blank existing value is replaced
  only by a non-empty parsed value.\<close>

definition merge_rule :: "(string \<rightharpoonup> jval) \<Rightarrow> (string \<rightharpoonup> string) \<Rightarrow> (string \<rightharpoonup> jval)" where
  "merge_rule M P =
     (\<lambda>k. case P k of
             None \<Rightarrow> M k
           | Some v \<Rightarrow> (case M k of
                          None \<Rightarrow> Some (JStr v)
                        | Some x \<Rightarrow> if blank x \<and> v \<noteq> [] then Some (JStr v) else Some x))"

text \<open>A candidate agrees with the match keys: every key is present in its metadata,
  non-blank after trimming, and equal after trimming to the value of the source.\<close>

definition agrees :: "(string, string) dict \<Rightarrow> (string, jval) dict \<Rightarrow> bool" where
  "agrees mk cand_meta =
     (\<forall>(k, v) \<in> set mk. case dict_get cand_meta k of
                           None \<Rightarrow> False
                         | Some x \<Rightarrow> strip (py_str x) \<noteq> [] \<and> strip (py_str x) = v)"

text \<open>The trimmed string rendering of a metadata value, and two documents that differ
  at most in how the values of the candidate keys are stored.\<close>

definition rendering :: "(string, jval) dict \<Rightarrow> string \<Rightarrow> string option" where
  "rendering m k = map_option (\<lambda>x. strip (py_str x)) (dict_get m k)"

definition same_rendering :: "trade_document \<Rightarrow> trade_document \<Rightarrow> bool" where
  "same_rendering x y =
     (doc_id x = doc_id y \<and> doc_type x = doc_type y \<and> uploader x = uploader y
      \<and> (\<forall>k \<in> set possible_keys. rendering (metadata x) k = rendering (metadata y) k))"

text \<open>The comparison of a candidate with the source by renderings alone: for every
  candidate key whose rendering in the source is not empty, the candidate has that key
  with the same rendering.\<close>

definition compared_equal :: "(string, jval) dict \<Rightarrow> (string, jval) dict \<Rightarrow> bool" where
  "compared_equal src cand =
     (\<forall>k \<in> set possible_keys. case rendering src k of
                                 None \<Rightarrow> True
                               | Some r \<Rightarrow> r = [] \<or> rendering cand k = Some r)"

text \<open>The rule for \<^verbatim>\<open>hs_code\<close>, written as a scan of the normalized text. A position
  is given by the character before it and the text from it on; \<open>first_at\<close> is the result
  at the leftmost position that has one.\<close>

fun first_at :: "(char option \<Rightarrow> string \<Rightarrow> 'a option) \<Rightarrow> char option \<Rightarrow> string \<Rightarrow> 'a option" where
  "first_at f prev [] = f prev []"
| "first_at f prev (c # cs) =
     (case f prev (c # cs) of Some r \<Rightarrow> Some r | None \<Rightarrow> first_at f (Some c) cs)"

definition after_word :: "char option \<Rightarrow> bool" where
  "after_word prev = (case prev of None \<Rightarrow> False | Some c \<Rightarrow> is_word c)"

definition before_word :: "string \<Rightarrow> bool" where
  "before_word rest = (case rest of [] \<Rightarrow> False | c # _ \<Rightarrow> is_word c)"

text \<open>The labelled code at a position: the letters H and S in either case, not preceded
  by a word character; then any colons and whitespace; then a run of digits that is 4
  to 10 long and not followed by a word character. The result is the run of digits.\<close>

definition labelled_hs_here :: "char option \<Rightarrow> string \<Rightarrow> string option" where
  "labelled_hs_here prev s =
     (case s of
        h # s' # rest \<Rightarrow>
          if ascii_lower h = CHR ''h'' \<and> ascii_lower s' = CHR ''s'' \<and> \<not> after_word prev
          then (let after = dropWhile colon_or_space rest;
                    ds = takeWhile is_digit after
                in if 4 \<le> length ds \<and> length ds \<le> 10 \<and> \<not> before_word (dropWhile is_digit after)
                   then Some ds else None)
          else None
      | _ \<Rightarrow> None)"

text \<open>The bare code at a position: a run of exactly 6 digits, neither preceded nor
  followed by a word character.\<close>

definition six_digits_here :: "char option \<Rightarrow> string \<Rightarrow> string option" where
  "six_digits_here prev s =
     (let ds = takeWhile is_digit s
      in if length ds = 6 \<and> \<not> after_word prev \<and> \<not> before_word (dropWhile is_digit s)
         then Some ds else None)"

definition hs_code_rule :: "string \<Rightarrow> string option" where
  "hs_code_rule s_norm =
     (case first_at labelled_hs_here None s_norm of
        Some ds \<Rightarrow> Some ds
      | None \<Rightarrow> first_at six_digits_here None s_norm)"

text \<open>The labelled code as the specification words it: the letters H and S in either
  case followed by 4 to 10 digits. Colons and whitespace may stand in between, as in the
  example of the specification; of a longer run the first ten digits are taken; there is
  no condition on the characters around.\<close>

definition stated_hs_here :: "char option \<Rightarrow> string \<Rightarrow> string option" where
  "stated_hs_here prev s =
     (case s of
        h # s' # rest \<Rightarrow>
          if ascii_lower h = CHR ''h'' \<and> ascii_lower s' = CHR ''s''
          then (let ds = take 10 (takeWhile is_digit (dropWhile colon_or_space rest))
                in if 4 \<le> length ds then Some ds else None)
          else None
      | _ \<Rightarrow> None)"

definition stated_hs_code :: "string \<Rightarrow> string option" where
  "stated_hs_code s_norm =
     (case first_at stated_hs_here None s_norm of
        Some ds \<Rightarrow> Some ds
      | None \<Rightarrow> first_at six_digits_here None s_norm)"

section \<open>Example data\<close>

definition example_invoice :: trade_document where
  "example_invoice = \<lparr>doc_id = 1, doc_type = Invoice, uploader = 7,
     metadata = [(''hs_code'', JStr ''8501''), (''value'', JInt 1250)], last_validation = None\<rparr>"

definition example_packing_list :: trade_document where
  "example_packing_list = \<lparr>doc_id = 2, doc_type = PackingList, uploader = 7,
     metadata = [(''hs_code'', JStr '' 8501''), (''value'', JStr ''1250''), (''gross_weight'', JInt 40)],
     last_validation = None\<rparr>"

definition example_file :: "nat \<Rightarrow> string \<Rightarrow> document_file" where
  "example_file i name = \<lparr>file_id = i, document = 1, field_name = name,
     extraction_status = Pending, extracted_text = None\<rparr>"

definition example_db :: db where
  "example_db = \<lparr>documents = [example_invoice, example_packing_list],
     files = [example_file 5 ''hs_code'', example_file 6 ''goods_description'',
              example_file 7 ''value'', example_file 8 ''currency''],
     validation_results = [], audit_log = []\<rparr>"

text \<open>A bill of lading of the same uploader whose value differs in the last digit.\<close>

definition example_bill :: trade_document where
  "example_bill = \<lparr>doc_id = 3, doc_type = BolAwb, uploader = 7,
     metadata = [(''hs_code'', JStr ''8501''), (''value'', JInt 1251)], last_validation = None\<rparr>"

definition example_db_bill :: db where
  "example_db_bill = example_db\<lparr>documents :=
     [example_invoice, example_packing_list, example_bill]\<rparr>"

text \<open>The same three documents with the invoice value stored as a string.\<close>

definition example_db_strings :: db where
  "example_db_strings = example_db\<lparr>documents :=
     [example_invoice\<lparr>metadata := [(''hs_code'', JStr ''8501''), (''value'', JStr ''1250 '')]\<rparr>,
      example_packing_list, example_bill]\<rparr>"

definition quiet_ocr :: ocr_env where
  "quiet_ocr = \<lparr>tmpdir_error = None, page_texts = [''USD''], pages_failed = False,
     image_text = Inr []\<rparr>"

definition quiet_venv :: venv where
  "quiet_venv = \<lparr>fetch_error = None, result_create_fails = False, save_validation_error = None,
     validation_audit_fails = False\<rparr>"

text \<open>An environment in which no external call raises and the PDF has one page of
  text.\<close>

definition quiet_env :: env where
  "quiet_env = \<lparr>lookup_error = None, save_running_error = None, file_path_error = None,
     pdf_pages = Inr [''HS 8501''], ocr = quiet_ocr, save_done_error = None,
     save_metadata_error = None, audit_fails = False, validation = quiet_venv,
     save_failed_error = None\<rparr>"

section \<open>Facts about trimming\<close>

lemma strip_Nil: "strip [] = []"
  by (simp add: strip_def)

lemma length_strip_le: "length (strip s) \<le> length s"
proof -
  have "length (strip s) = length (dropWhile is_space (rev (dropWhile is_space s)))"
    by (simp add: strip_def)
  also have "\<dots> \<le> length (rev (dropWhile is_space s))"
    by (rule length_dropWhile_le)
  also have "\<dots> \<le> length s"
    by (simp add: length_dropWhile_le)
  finally show ?thesis .
qed

lemma dropWhile_strip: "dropWhile is_space (strip s) = strip s"
proof (cases "strip s")
  case Nil
  then show ?thesis by simp
next
  case (Cons a as)
  define u where "u = dropWhile is_space s"
  have su: "strip s = rev (dropWhile is_space (rev u))"
    by (simp add: strip_def u_def)
  with Cons have ne: "dropWhile is_space (rev u) \<noteq> []" by auto
  then have "u \<noteq> []" by auto
  then have "\<not> is_space (hd u)"
    unfolding u_def by (metis hd_dropWhile)
  moreover have "last (dropWhile is_space (rev u)) = hd u"
    using ne by (metis dropWhile_last dropWhile_eq_Nil_conv last_rev)
  ultimately have "\<not> is_space (hd (strip s))"
    using ne su by (simp add: hd_rev)
  with Cons show ?thesis by simp
qed

lemma strip_idem: "strip (strip s) = strip s"
proof -
  have "rev (strip s) = dropWhile is_space (rev (dropWhile is_space s))"
    by (simp add: strip_def)
  then have "dropWhile is_space (rev (strip s)) = rev (strip s)"
    by simp
  then show ?thesis
    by (simp add: strip_def[of "strip s"] dropWhile_strip)
qed

section \<open>Choice between the direct and the recognised text\<close>

lemma ocr_output_stripped: "ocr_pdf_images oe = Inr t \<Longrightarrow> strip t = t"
  by (auto simp: ocr_pdf_images_def join_pages_def strip_idem strip_Nil
           split: option.splits if_splits sum.splits)

text \<open>
  Claim C6. The recognition fallback is called exactly when the direct text is empty or
  has fewer than 30 characters after trimming. When it is called and returns, the text
  kept is the recognised one if it is longer than the direct one and the direct one
  otherwise; when it is not called the direct text is kept.
\<close>

theorem fallback_selection:
  "fst (choose_text direct oe)
     = (if direct = [] \<or> length (strip direct) < 30 then [OcrCalled] else [])
   \<and> (\<forall>t. (direct = [] \<or> length (strip direct) < 30) \<and> ocr_pdf_images oe = Inr t \<longrightarrow>
         snd (choose_text direct oe) = Inr (if length direct < length t then t else direct))
   \<and> (\<not> (direct = [] \<or> length (strip direct) < 30) \<longrightarrow> snd (choose_text direct oe) = Inr direct)"
proof (intro conjI allI impI)
  show "fst (choose_text direct oe)
          = (if direct = [] \<or> length (strip direct) < 30 then [OcrCalled] else [])"
    by (simp add: choose_text_def split: sum.splits)
next
  fix t
  assume a: "(direct = [] \<or> length (strip direct) < 30) \<and> ocr_pdf_images oe = Inr t"
  then have st: "strip t = t" by (auto dest: ocr_output_stripped)
  have "length direct < length t \<Longrightarrow> t \<noteq> []" by auto
  with a st show "snd (choose_text direct oe) = Inr (if length direct < length t then t else direct)"
    by (auto simp: choose_text_def)
next
  assume "\<not> (direct = [] \<or> length (strip direct) < 30)"
  then show "snd (choose_text direct oe) = Inr direct"
    by (simp add: choose_text_def)
qed

theorem fallback_selection_witness:
  "fst (choose_text ''HS 8501'' quiet_ocr) = [OcrCalled]
   \<and> snd (choose_text ''HS 8501'' quiet_ocr) = Inr ''HS 8501''"
proof -
  have o: "ocr_pdf_images quiet_ocr = Inr ''USD''"
    by code_simp
  have s: "length (strip ''HS 8501'') < 30"
    using length_strip_le [of "''HS 8501''"] by simp
  from fallback_selection [of "''HS 8501''" quiet_ocr] o s show ?thesis
    by simp
qed

section \<open>The two tables of required fields\<close>

text \<open>
  Claim C9. The table of the upload view and the table of the validation engine differ
  for every document type, and for an invoice that has the four files of the engine's
  table the upload view misses three files where the engine misses none.
\<close>

theorem required_fields_tables_differ:
  "views_REQUIRED_FIELDS t \<noteq> tasks_REQUIRED_FIELDS t
   \<and> upload_missing_files Invoice (map field_name (files example_db))
       = [''unit_of_measure'', ''quantity'', ''weight'']
   \<and> validation_missing_files example_db example_invoice = []"
proof (intro conjI)
  show "views_REQUIRED_FIELDS t \<noteq> tasks_REQUIRED_FIELDS t"
    by (cases t) simp_all
  show "upload_missing_files Invoice (map field_name (files example_db))
          = [''unit_of_measure'', ''quantity'', ''weight'']"
    by code_simp
  show "validation_missing_files example_db example_invoice = []"
    by code_simp
qed

section \<open>The metadata merge\<close>

lemma map_of_dict_set: "map_of (dict_set d k v) = (map_of d)(k \<mapsto> v)"
  by (induction d) (auto simp: fun_eq_iff)

lemma keys_dict_set:
  "map fst (dict_set d k v) = (if k \<in> set (map fst d) then map fst d else map fst d @ [k])"
  by (induction d) auto

lemma distinct_dict_set: "distinct (map fst d) \<Longrightarrow> distinct (map fst (dict_set d k v))"
  by (simp add: keys_dict_set)

lemma merge_parsed_lookup:
  "distinct (map fst P) \<Longrightarrow>
   map_of (fst (merge_parsed M c P)) k
     = (case map_of P k of
          None \<Rightarrow> map_of M k
        | Some v \<Rightarrow> (case map_of M k of
                       None \<Rightarrow> Some (JStr v)
                     | Some x \<Rightarrow> if \<not> truthy x \<and> v \<noteq> [] then Some (JStr v) else Some x))"
proof (induction P arbitrary: M c)
  case Nil
  then show ?case by simp
next
  case (Cons p P)
  obtain k' v where p: "p = (k', v)" by (cases p)
  from Cons.prems p have notin: "map_of P k' = None" and dist: "distinct (map fst P)"
    by (auto simp: map_of_eq_None_iff)
  show ?case
  proof (cases "case dict_get M k' of None \<Rightarrow> True | Some x \<Rightarrow> \<not> truthy x \<and> v \<noteq> []")
    case True
    then have "map_of (fst (merge_parsed M c (p # P))) k
                 = map_of (fst (merge_parsed (dict_set M k' (JStr v)) True P)) k"
      using p by simp
    also have "\<dots> = (case map_of (p # P) k of
          None \<Rightarrow> map_of M k
        | Some v \<Rightarrow> (case map_of M k of
                       None \<Rightarrow> Some (JStr v)
                     | Some x \<Rightarrow> if \<not> truthy x \<and> v \<noteq> [] then Some (JStr v) else Some x))"
      unfolding Cons.IH [OF dist] using True notin p
      by (auto simp: map_of_dict_set dict_get_def split: option.splits)
    finally show ?thesis .
  next
    case False
    then have "map_of (fst (merge_parsed M c (p # P))) k = map_of (fst (merge_parsed M c P)) k"
      using p by simp
    also have "\<dots> = (case map_of (p # P) k of
          None \<Rightarrow> map_of M k
        | Some v \<Rightarrow> (case map_of M k of
                       None \<Rightarrow> Some (JStr v)
                     | Some x \<Rightarrow> if \<not> truthy x \<and> v \<noteq> [] then Some (JStr v) else Some x))"
      unfolding Cons.IH [OF dist] using False notin p
      by (auto simp: dict_get_def split: option.splits)
    finally show ?thesis .
  qed
qed

lemma merge_parsed_rule:
  assumes "distinct (map fst P)" and "\<forall>x. map_of M k = Some x \<longrightarrow> blank_as_tested x"
  shows "map_of (fst (merge_parsed M c P)) k = merge_rule (map_of M) (map_of P) k"
  unfolding merge_parsed_lookup [OF assms(1)] using assms(2)
  by (auto simp: merge_rule_def blank_as_tested_def split: option.splits)

lemma merge_parsed_changed: "snd (merge_parsed M True P)"
  by (induction P arbitrary: M) auto

lemma merge_parsed_unchanged: "\<not> snd (merge_parsed M c P) \<Longrightarrow> fst (merge_parsed M c P) = M"
  by (induction P arbitrary: M c) (auto simp: merge_parsed_changed split: if_splits)

lemma find_map_update:
  "find (\<lambda>x. doc_id x = i) xs = Some doc \<Longrightarrow> doc_id (f doc) = i \<Longrightarrow>
   find (\<lambda>x. doc_id x = i) (map (\<lambda>x. if doc_id x = i then f x else x) xs) = Some (f doc)"
  by (induction xs) (auto split: if_splits)

lemma merge_rule_keeps:
  "M k = Some x \<Longrightarrow> \<not> blank x \<Longrightarrow> merge_rule M P k = Some x"
  by (simp add: merge_rule_def split: option.splits)

text \<open>
  Claim C1, as the code has it. When the merge step of the pipeline ends without an
  exception, then at every key whose existing value, if there is one, is null, a string
  that is empty or not blank after trimming, a non-zero number or true, the metadata of
  the owning document holds the parsed value if the key was absent, or was blank while
  the parsed value is not empty, and the existing value otherwise; such a key that held
  a non-blank value keeps it.
\<close>

theorem metadata_merge_non_destructive:
  assumes "distinct (map fst parsed)"
      and "find (\<lambda>x. doc_id x = document df) (documents d) = Some doc"
      and "snd (snd (merge_step e d df parsed)) = None"
  shows "\<exists>doc'. find (\<lambda>x. doc_id x = document df) (documents (fst (merge_step e d df parsed)))
                   = Some doc'
           \<and> (\<forall>k. (\<forall>x. map_of (metadata doc) k = Some x \<longrightarrow> blank_as_tested x) \<longrightarrow>
                  map_of (metadata doc') k = merge_rule (map_of (metadata doc)) (map_of parsed) k)
           \<and> (\<forall>k x. map_of (metadata doc) k = Some x \<and> \<not> blank x \<and> blank_as_tested x \<longrightarrow>
                  map_of (metadata doc') k = Some x)"
proof -
  let ?m = "merge_parsed (metadata doc) False parsed"
  let ?d' = "fst (merge_step e d df parsed)"
  from assms(2) have idd: "doc_id doc = document df"
    by (auto dest: find_Some_iff [THEN iffD1])
  have "\<exists>doc'. find (\<lambda>x. doc_id x = document df) (documents ?d') = Some doc'
           \<and> metadata doc' = fst ?m"
  proof (cases "parsed \<noteq> [] \<and> snd ?m")
    case True
    with assms(2,3) have d': "?d' = write_audit (audit_fails e) (''metadata_auto_extracted'', None)
        (update_document d (doc_id doc) (\<lambda>x. x\<lparr>metadata := fst ?m\<rparr>))"
      by (auto simp: merge_step_def split: prod.splits option.splits if_splits)
    have "find (\<lambda>x. doc_id x = document df) (documents ?d') = Some (doc\<lparr>metadata := fst ?m\<rparr>)"
      using find_map_update [OF assms(2), of "\<lambda>x. x\<lparr>metadata := fst ?m\<rparr>"] idd
      by (simp add: d' write_audit_def update_document_def)
    then show ?thesis by simp
  next
    case False
    with assms(2,3) have "?d' = d"
      by (auto simp: merge_step_def split: prod.splits option.splits if_splits)
    moreover from False have "fst ?m = metadata doc"
      by (cases "parsed = []") (auto simp: merge_parsed_unchanged)
    ultimately show ?thesis using assms(2) by simp
  qed
  then obtain doc' where f: "find (\<lambda>x. doc_id x = document df) (documents ?d') = Some doc'"
    and m: "metadata doc' = fst ?m" by blast
  have rule: "map_of (metadata doc') k = merge_rule (map_of (metadata doc)) (map_of parsed) k"
    if "\<forall>x. map_of (metadata doc) k = Some x \<longrightarrow> blank_as_tested x" for k
    unfolding m using assms(1) that by (rule merge_parsed_rule)
  have keep: "map_of (metadata doc') k = Some x"
    if "map_of (metadata doc) k = Some x \<and> \<not> blank x \<and> blank_as_tested x" for k x
  proof -
    from that have "\<forall>y. map_of (metadata doc) k = Some y \<longrightarrow> blank_as_tested y" by simp
    then have "map_of (metadata doc') k = merge_rule (map_of (metadata doc)) (map_of parsed) k"
      by (rule rule)
    with that show ?thesis by (simp add: merge_rule_keeps)
  qed
  from f rule keep show ?thesis by blast
qed

theorem metadata_merge_non_destructive_witness:
  "distinct (map fst [(''hs_code'', ''9999''), (''currency'', ''USD'')])
   \<and> find (\<lambda>x. doc_id x = document (example_file 5 ''hs_code'')) (documents example_db)
       = Some example_invoice
   \<and> snd (snd (merge_step quiet_env example_db (example_file 5 ''hs_code'')
                  [(''hs_code'', ''9999''), (''currency'', ''USD'')])) = None
   \<and> map_of (metadata example_invoice) ''hs_code'' = Some (JStr ''8501'')
   \<and> \<not> blank (JStr ''8501'') \<and> blank_as_tested (JStr ''8501'')
   \<and> map_of (metadata example_invoice) ''currency'' = None
   \<and> (\<exists>doc'. find (\<lambda>x. doc_id x = document (example_file 5 ''hs_code''))
                (documents (fst (merge_step quiet_env example_db (example_file 5 ''hs_code'')
                                   [(''hs_code'', ''9999''), (''currency'', ''USD'')]))) = Some doc'
          \<and> map_of (metadata doc') ''hs_code'' = Some (JStr ''8501'')
          \<and> map_of (metadata doc') ''currency'' = Some (JStr ''USD''))"
proof -
  let ?P = "[(''hs_code'', ''9999''), (''currency'', ''USD'')]"
  have h1: "distinct (map fst ?P)"
    by simp
  have h2: "find (\<lambda>x. doc_id x = document (example_file 5 ''hs_code'')) (documents example_db)
              = Some example_invoice"
    by code_simp
  have h3: "snd (snd (merge_step quiet_env example_db (example_file 5 ''hs_code'') ?P)) = None"
    by code_simp
  have m: "map_of (metadata example_invoice) ''hs_code'' = Some (JStr ''8501'')"
    "map_of (metadata example_invoice) ''currency'' = None"
    by (simp_all add: example_invoice_def)
  have b: "\<not> blank (JStr ''8501'')" "blank_as_tested (JStr ''8501'')"
    by code_simp+
  from metadata_merge_non_destructive [OF h1 h2 h3]
  obtain doc' where f: "find (\<lambda>x. doc_id x = document (example_file 5 ''hs_code''))
                (documents (fst (merge_step quiet_env example_db (example_file 5 ''hs_code'') ?P)))
                = Some doc'"
    and r: "\<forall>k. (\<forall>x. map_of (metadata example_invoice) k = Some x \<longrightarrow> blank_as_tested x) \<longrightarrow>
                  map_of (metadata doc') k
                    = merge_rule (map_of (metadata example_invoice)) (map_of ?P) k"
    and kp: "\<forall>k x. map_of (metadata example_invoice) k = Some x \<and> \<not> blank x \<and> blank_as_tested x \<longrightarrow>
                  map_of (metadata doc') k = Some x"
    by blast
  from kp m(1) b have "map_of (metadata doc') ''hs_code'' = Some (JStr ''8501'')"
    by blast
  moreover from r m(2) have "map_of (metadata doc') ''currency''
      = merge_rule (map_of (metadata example_invoice)) (map_of ?P) ''currency''"
    by simp
  then have "map_of (metadata doc') ''currency'' = Some (JStr ''USD'')"
    by (simp add: merge_rule_def m(2))
  ultimately show ?thesis
    using f h1 h2 h3 m b by blast
qed

text \<open>
  Claim C1 as stated fails: the text \<^verbatim>\<open>Consignee:    X\<close> parses to an empty consignee, and
  over an existing null consignee the code keeps null where the stated union has the
  parsed empty string.
\<close>

theorem metadata_merge_spec_counterexample:
  "parse_text_for_metadata ''Consignee:    X'' = [(''consignee'', [])]
   \<and> map_of (fst (merge_parsed [(''consignee'', JNull)] False
                    (parse_text_for_metadata ''Consignee:    X''))) ''consignee'' = Some JNull
   \<and> spec_merge (map_of [(''consignee'', JNull)])
        (map_of (parse_text_for_metadata ''Consignee:    X'')) ''consignee'' = Some (JStr [])"
proof -
  have p: "parse_text_for_metadata ''Consignee:    X'' = [(''consignee'', [])]"
    by code_simp
  show ?thesis
    unfolding p by (simp add: spec_merge_def dict_get_def)
qed

text \<open>Outside the merge rule: the test of line 155 replaces a stored zero and a stored
  false, and keeps a stored string of whitespace only.\<close>

lemma merge_outside_rule:
  "fst (merge_parsed [(''value'', JInt 0)] False [(''value'', ''8501'')]) = [(''value'', JStr ''8501'')]"
  "fst (merge_parsed [(''paid'', JBool False)] False [(''paid'', ''8501'')]) = [(''paid'', JStr ''8501'')]"
  "fst (merge_parsed [(''consignee'', JStr '' '')] False [(''consignee'', ''ACME'')])
     = [(''consignee'', JStr '' '')]"
  by (simp_all add: dict_get_def)

section \<open>The matcher\<close>

lemma accept_iff_agrees:
  "(all_keys_present mk m \<and> \<not> has_mismatch mk m) = agrees mk m"
proof (induction mk)
  case Nil
  show ?case by (simp add: all_keys_present_def agrees_def)
next
  case (Cons p mk)
  obtain k v where p: "p = (k, v)" by (cases p)
  from Cons show ?case
    unfolding p by (auto simp: all_keys_present_def agrees_def split: option.splits)
qed

lemma find_candidate_None:
  "(find_candidate mk cs = None) = (\<forall>c \<in> set cs. \<not> agrees mk (metadata c))"
  by (induction cs) (auto simp: Let_def accept_iff_agrees [symmetric])

lemma find_candidate_Some:
  "find_candidate mk cs = Some c \<Longrightarrow> c \<in> set cs \<and> agrees mk (metadata c)"
  by (induction cs) (auto simp: Let_def accept_iff_agrees [symmetric] split: if_splits)

lemma match_types_missing:
  "snd (match_types d doc mk ts (found, missing))
     = missing @ filter (\<lambda>t. doc_type doc \<noteq> t \<and> find_candidate mk (candidates_of d doc t) = None) ts"
  by (induction ts arbitrary: found missing) (auto split: option.splits)

lemma match_types_found:
  "map_of (fst (match_types d doc mk ts (found, missing))) t
     = (if t \<in> set ts
        then Some (if doc_type doc = t then (Some (doc_id doc), True)
                   else (case find_candidate mk (candidates_of d doc t) of
                           Some c \<Rightarrow> (Some (doc_id c), True)
                         | None \<Rightarrow> (None, False)))
        else map_of found t)"
  by (induction ts arbitrary: found missing) (auto simp: map_of_dict_set split: option.splits)

lemma match_types_distinct:
  "distinct (map fst found) \<Longrightarrow> distinct (map fst (fst (match_types d doc mk ts (found, missing))))"
  by (induction ts arbitrary: found missing) (auto simp: distinct_dict_set split: option.splits)

lemma map_of_filter_distinct:
  "distinct (map fst xs) \<Longrightarrow>
   map_of (filter (\<lambda>(k, v). P v) xs) k
     = (case map_of xs k of None \<Rightarrow> None | Some v \<Rightarrow> if P v then Some v else None)"
  by (induction xs) (auto simp: map_of_eq_None_iff image_iff split: option.splits)

lemma map_of_build_match_keys:
  "map_of (build_match_keys m) k
     = (if k \<in> set possible_keys
        then (case dict_get m k of
                None \<Rightarrow> None
              | Some x \<Rightarrow> if strip (py_str x) = [] then None else Some (strip (py_str x)))
        else None)"
proof -
  have "map_of (List.map_filter (\<lambda>k. case dict_get m k of
                            None \<Rightarrow> None
                          | Some x \<Rightarrow> if strip (py_str x) \<noteq> [] then Some (k, strip (py_str x))
                                      else None) ks) k
     = (if k \<in> set ks
        then (case dict_get m k of
                None \<Rightarrow> None
              | Some x \<Rightarrow> if strip (py_str x) = [] then None else Some (strip (py_str x)))
        else None)" for ks
    by (induction ks) (auto split: option.splits)
  then show ?thesis by (simp add: build_match_keys_def)
qed

lemma candidate_exists:
  "(\<exists>c \<in> set (candidates_of d doc t). agrees mk (metadata c))
     = (\<exists>c \<in> set (documents d). doc_id c \<noteq> doc_id doc \<and> doc_type c = t
                                  \<and> uploader c = uploader doc \<and> agrees mk (metadata c))"
  by (auto simp: candidates_of_def)

lemma agrees_extra_key:
  assumes "k' \<notin> fst ` set mk"
  shows "agrees mk (dict_set m k' x) = agrees mk m"
proof -
  have "dict_get (dict_set m k' x) k = dict_get m k" if "(k, v) \<in> set mk" for k v
  proof -
    from that assms have "k \<noteq> k'" by force
    then show ?thesis by (simp add: dict_get_def map_of_dict_set)
  qed
  then show ?thesis
    unfolding agrees_def by (intro ball_cong refl) auto
qed

text \<open>
  Claim C2. The match keys of the matcher are the candidate keys whose value in the
  metadata of the source is not blank after trimming, with the trimmed value. The
  source's own type is reported as matched with the source's own id. Every other type is
  reported as matched exactly when a different document of that type and of the same
  uploader agrees on every match key, with the id of such a document, and is reported as
  unmatched and listed as missing otherwise. Keys outside the match keys on a candidate
  do not change whether it agrees. For a document with metadata the validation result
  carries these match keys, the matched types and the missing types.
\<close>

theorem cross_document_matching:
  "\<exists>mk found mt.
       run_matcher d doc = (mk, found, mt)
     \<and> (\<forall>k. map_of mk k
               = (if k \<in> set possible_keys
                  then (case dict_get (metadata doc) k of
                          None \<Rightarrow> None
                        | Some x \<Rightarrow> if strip (py_str x) = [] then None
                                    else Some (strip (py_str x)))
                  else None))
     \<and> map_of found (doc_type doc) = Some (Some (doc_id doc), True)
     \<and> doc_type doc \<notin> set mt
     \<and> (\<forall>t. t \<noteq> doc_type doc \<longrightarrow>
            ((\<exists>i. map_of found t = Some (Some i, True))
                = (\<exists>c \<in> set (documents d). doc_id c \<noteq> doc_id doc \<and> doc_type c = t
                          \<and> uploader c = uploader doc \<and> agrees mk (metadata c)))
          \<and> (\<forall>i. map_of found t = Some (Some i, True) \<longrightarrow>
                (\<exists>c \<in> set (documents d). doc_id c = i \<and> doc_id c \<noteq> doc_id doc \<and> doc_type c = t
                          \<and> uploader c = uploader doc \<and> agrees mk (metadata c)))
          \<and> ((map_of found t = Some (None, False))
                = (\<not> (\<exists>c \<in> set (documents d). doc_id c \<noteq> doc_id doc \<and> doc_type c = t
                          \<and> uploader c = uploader doc \<and> agrees mk (metadata c))))
          \<and> ((t \<in> set mt)
                = (\<not> (\<exists>c \<in> set (documents d). doc_id c \<noteq> doc_id doc \<and> doc_type c = t
                          \<and> uploader c = uploader doc \<and> agrees mk (metadata c)))))
     \<and> (\<forall>m k' x. k' \<notin> fst ` set mk \<longrightarrow> agrees mk (dict_set m k' x) = agrees mk m)
     \<and> (metadata doc \<noteq> [] \<longrightarrow>
            match_keys (compute_results d doc) = Some mk
          \<and> found_types (compute_results d doc) = Some (filter (\<lambda>(k, v). snd v) found)
          \<and> missing_types (compute_results d doc) = Some mt)"
proof -
  define mk where "mk = build_match_keys (metadata doc)"
  define res where "res = match_types d doc mk required_types ([], [])"
  define found where "found = fst res"
  define mt where "mt = snd res"
  have all_types: "t \<in> set required_types" for t
    by (cases t) (simp_all add: required_types_def)
  have r0: "run_matcher d doc = (mk, found, mt)"
    by (simp add: run_matcher_def Let_def mk_def res_def found_def mt_def split: prod.splits)
  have r1: "metadata doc \<noteq> [] \<longrightarrow>
            match_keys (compute_results d doc) = Some mk
          \<and> found_types (compute_results d doc) = Some (filter (\<lambda>(k, v). snd v) found)
          \<and> missing_types (compute_results d doc) = Some mt"
    by (simp add: compute_results_def Let_def r0)
  have found: "map_of found t
     = Some (if doc_type doc = t then (Some (doc_id doc), True)
             else (case find_candidate mk (candidates_of d doc t) of
                     Some c \<Rightarrow> (Some (doc_id c), True)
                   | None \<Rightarrow> (None, False)))" for t
    unfolding found_def res_def by (simp add: match_types_found all_types)
  have mt: "set mt = {t. doc_type doc \<noteq> t \<and> find_candidate mk (candidates_of d doc t) = None}"
    unfolding mt_def res_def by (auto simp: match_types_missing all_types)
  have ex: "(find_candidate mk (candidates_of d doc t) \<noteq> None)
     = (\<exists>c \<in> set (documents d). doc_id c \<noteq> doc_id doc \<and> doc_type c = t
                          \<and> uploader c = uploader doc \<and> agrees mk (metadata c))" for t
    by (simp add: find_candidate_None candidate_exists)
  have keys: "\<forall>k. map_of mk k
                   = (if k \<in> set possible_keys
                      then (case dict_get (metadata doc) k of
                              None \<Rightarrow> None
                            | Some x \<Rightarrow> if strip (py_str x) = [] then None
                                        else Some (strip (py_str x)))
                      else None)"
    unfolding mk_def by (simp add: map_of_build_match_keys)
  have own: "map_of found (doc_type doc) = Some (Some (doc_id doc), True)" "doc_type doc \<notin> set mt"
    by (simp_all add: found mt)
  have other: "((\<exists>i. map_of found t = Some (Some i, True))
                = (\<exists>c \<in> set (documents d). doc_id c \<noteq> doc_id doc \<and> doc_type c = t
                          \<and> uploader c = uploader doc \<and> agrees mk (metadata c)))
          \<and> (\<forall>i. map_of found t = Some (Some i, True) \<longrightarrow>
                (\<exists>c \<in> set (documents d). doc_id c = i \<and> doc_id c \<noteq> doc_id doc \<and> doc_type c = t
                          \<and> uploader c = uploader doc \<and> agrees mk (metadata c)))
          \<and> ((map_of found t = Some (None, False))
                = (\<not> (\<exists>c \<in> set (documents d). doc_id c \<noteq> doc_id doc \<and> doc_type c = t
                          \<and> uploader c = uploader doc \<and> agrees mk (metadata c))))
          \<and> ((t \<in> set mt)
                = (\<not> (\<exists>c \<in> set (documents d). doc_id c \<noteq> doc_id doc \<and> doc_type c = t
                          \<and> uploader c = uploader doc \<and> agrees mk (metadata c))))"
    if "t \<noteq> doc_type doc" for t
  proof (cases "find_candidate mk (candidates_of d doc t)")
    case None
    with that ex [of t] show ?thesis by (simp add: found mt)
  next
    case (Some c0)
    then have "c0 \<in> set (candidates_of d doc t)" "agrees mk (metadata c0)"
      by (auto dest: find_candidate_Some)
    then have c0: "c0 \<in> set (documents d)" "doc_id c0 \<noteq> doc_id doc" "doc_type c0 = t"
      "uploader c0 = uploader doc" "agrees mk (metadata c0)"
      by (auto simp: candidates_of_def)
    have f: "map_of found t = Some (Some (doc_id c0), True)"
      using that Some by (simp add: found)
    have m: "t \<notin> set mt"
      using Some by (simp add: mt)
    from c0 f m show ?thesis by auto
  qed
  have extra: "\<forall>m k' x. k' \<notin> fst ` set mk \<longrightarrow> agrees mk (dict_set m k' x) = agrees mk m"
    by (simp add: agrees_extra_key)
  from r0 r1 keys own other extra show ?thesis by blast
qed

theorem cross_document_matching_witness:
  "PackingList \<noteq> doc_type example_invoice \<and> metadata example_invoice \<noteq> []
   \<and> run_matcher example_db example_invoice
       = ([(''hs_code'', ''8501''), (''value'', ''1250'')],
          [(Invoice, Some 1, True), (PackingList, Some 2, True), (BolAwb, None, False),
           (DeliveryOrder, None, False)],
          [BolAwb, DeliveryOrder])
   \<and> (\<exists>c \<in> set (documents example_db). doc_id c = 2 \<and> doc_id c \<noteq> doc_id example_invoice
          \<and> doc_type c = PackingList \<and> uploader c = uploader example_invoice
          \<and> agrees [(''hs_code'', ''8501''), (''value'', ''1250'')] (metadata c))
   \<and> found_types (compute_results example_db example_invoice)
       = Some [(Invoice, Some 1, True), (PackingList, Some 2, True)]"
proof -
  have h: "metadata example_invoice \<noteq> []" "PackingList \<noteq> doc_type example_invoice"
    by (simp_all add: example_invoice_def)
  have k: "run_matcher example_db example_invoice
       = ([(''hs_code'', ''8501''), (''value'', ''1250'')],
          [(Invoice, Some 1, True), (PackingList, Some 2, True), (BolAwb, None, False),
           (DeliveryOrder, None, False)],
          [BolAwb, DeliveryOrder])"
    by code_simp
  from cross_document_matching [of example_db example_invoice]
  obtain mk found mt where r: "run_matcher example_db example_invoice = (mk, found, mt)"
    and ids: "\<forall>t. t \<noteq> doc_type example_invoice \<longrightarrow>
            ((\<exists>i. map_of found t = Some (Some i, True))
                = (\<exists>c \<in> set (documents example_db). doc_id c \<noteq> doc_id example_invoice
                      \<and> doc_type c = t \<and> uploader c = uploader example_invoice
                      \<and> agrees mk (metadata c)))
          \<and> (\<forall>i. map_of found t = Some (Some i, True) \<longrightarrow>
                (\<exists>c \<in> set (documents example_db). doc_id c = i
                      \<and> doc_id c \<noteq> doc_id example_invoice
                      \<and> doc_type c = t \<and> uploader c = uploader example_invoice
                      \<and> agrees mk (metadata c)))
          \<and> ((map_of found t = Some (None, False))
                = (\<not> (\<exists>c \<in> set (documents example_db). doc_id c \<noteq> doc_id example_invoice
                      \<and> doc_type c = t \<and> uploader c = uploader example_invoice
                      \<and> agrees mk (metadata c))))
          \<and> ((t \<in> set mt)
                = (\<not> (\<exists>c \<in> set (documents example_db). doc_id c \<noteq> doc_id example_invoice
                      \<and> doc_type c = t \<and> uploader c = uploader example_invoice
                      \<and> agrees mk (metadata c))))"
    and res: "metadata example_invoice \<noteq> [] \<longrightarrow>
            match_keys (compute_results example_db example_invoice) = Some mk
          \<and> found_types (compute_results example_db example_invoice)
              = Some (filter (\<lambda>(k, v). snd v) found)
          \<and> missing_types (compute_results example_db example_invoice) = Some mt"
    by blast
  from r k have mk: "mk = [(''hs_code'', ''8501''), (''value'', ''1250'')]"
    and found: "found = [(Invoice, Some 1, True), (PackingList, Some 2, True), (BolAwb, None, False),
           (DeliveryOrder, None, False)]"
    by simp_all
  have "map_of found PackingList = Some (Some 2, True)"
    by (simp add: found)
  with ids h(2) have "\<exists>c \<in> set (documents example_db). doc_id c = 2
                      \<and> doc_id c \<noteq> doc_id example_invoice
                      \<and> doc_type c = PackingList \<and> uploader c = uploader example_invoice
                      \<and> agrees mk (metadata c)"
    by blast
  moreover from res h(1) have "found_types (compute_results example_db example_invoice)
       = Some [(Invoice, Some 1, True), (PackingList, Some 2, True)]"
    by (simp add: found)
  ultimately show ?thesis
    using h k unfolding mk by blast
qed

section \<open>The readiness verdict\<close>

text \<open>
  Claim C3. For a document with metadata, the verdict is ready exactly when no file and
  no type is missing. The message is the fixed success sentence when ready; otherwise it
  is the clause for the missing files, if any, and the clause for the missing types, if
  any, joined by a bar.
\<close>

theorem readiness_verdict:
  assumes "metadata doc \<noteq> []"
  shows "\<exists>mt. missing_types (compute_results d doc) = Some mt
           \<and> missing_files (compute_results d doc) = validation_missing_files d doc
           \<and> ready_for_approval (compute_results d doc)
               = (missing_files (compute_results d doc) = [] \<and> mt = [])
           \<and> message (compute_results d doc)
               = (if ready_for_approval (compute_results d doc)
                  then ''All related documents found and consistent. Ready for approval.''
                  else py_join '' | ''
                         ((if missing_files (compute_results d doc) = [] then []
                           else [''Missing files for this document: ''
                                   @ py_repr_list (missing_files (compute_results d doc))])
                          @ (if mt = [] then []
                             else [''Missing or unmatched document types: ''
                                     @ py_join '', '' (map type_name mt)])))"
proof -
  define mt where "mt = snd (snd (run_matcher d doc))"
  have "missing_types (compute_results d doc) = Some mt
           \<and> missing_files (compute_results d doc) = validation_missing_files d doc
           \<and> ready_for_approval (compute_results d doc)
               = (missing_files (compute_results d doc) = [] \<and> mt = [])
           \<and> message (compute_results d doc)
               = (if ready_for_approval (compute_results d doc)
                  then ''All related documents found and consistent. Ready for approval.''
                  else py_join '' | ''
                         ((if missing_files (compute_results d doc) = [] then []
                           else [''Missing files for this document: ''
                                   @ py_repr_list (missing_files (compute_results d doc))])
                          @ (if mt = [] then []
                             else [''Missing or unmatched document types: ''
                                     @ py_join '', '' (map type_name mt)])))"
    using assms
    by (simp add: compute_results_def Let_def success_message_def failure_message_def mt_def
             split: prod.splits)
  then show ?thesis by blast
qed

theorem readiness_verdict_witness:
  "metadata example_invoice \<noteq> []
   \<and> missing_types (compute_results example_db example_invoice) = Some [BolAwb, DeliveryOrder]
   \<and> missing_files (compute_results example_db example_invoice) = []
   \<and> \<not> ready_for_approval (compute_results example_db example_invoice)
   \<and> message (compute_results example_db example_invoice)
       = ''Missing or unmatched document types: bol_awb, delivery_order''"
proof -
  have h: "metadata example_invoice \<noteq> []"
    by (simp add: example_invoice_def)
  have m: "missing_types (compute_results example_db example_invoice) = Some [BolAwb, DeliveryOrder]"
    by code_simp
  have f: "validation_missing_files example_db example_invoice = []"
    by code_simp
  from readiness_verdict [OF h, of example_db] m f show ?thesis
    using h by simp
qed

section \<open>Comparison by string rendering\<close>

lemma map_filter_cong_strong:
  "(\<And>x. x \<in> set xs \<Longrightarrow> f x = g x) \<Longrightarrow> List.map_filter f xs = List.map_filter g xs"
  by (induction xs) (auto split: option.splits)

lemma same_rendering_keys:
  assumes "\<forall>k \<in> set possible_keys. rendering m k = rendering m' k"
  shows "build_match_keys m = build_match_keys m'"
proof -
  have "(case dict_get m k of
           None \<Rightarrow> None
         | Some x \<Rightarrow> if strip (py_str x) \<noteq> [] then Some (k, strip (py_str x)) else None)
      = (case dict_get m' k of
           None \<Rightarrow> None
         | Some x \<Rightarrow> if strip (py_str x) \<noteq> [] then Some (k, strip (py_str x)) else None)"
    if "k \<in> set possible_keys" for k
  proof -
    from assms that have "rendering m k = rendering m' k" by blast
    then show ?thesis
      by (cases "dict_get m k"; cases "dict_get m' k") (auto simp: rendering_def)
  qed
  then show ?thesis
    unfolding build_match_keys_def
    by (intro map_filter_cong_strong)
qed

lemma build_match_keys_subset: "fst ` set (build_match_keys m) \<subseteq> set possible_keys"
proof
  fix k
  assume "k \<in> fst ` set (build_match_keys m)"
  then have "map_of (build_match_keys m) k \<noteq> None"
    by (simp add: map_of_eq_None_iff)
  then show "k \<in> set possible_keys"
    unfolding map_of_build_match_keys by (simp split: if_splits)
qed

lemma find_candidate_Cons:
  "find_candidate mk (c # cs) = (if agrees mk (metadata c) then Some c else find_candidate mk cs)"
  using accept_iff_agrees [of mk "metadata c"] by (auto simp: Let_def)

lemma agrees_rendering:
  assumes "fst ` set mk \<subseteq> set possible_keys"
      and "\<forall>k \<in> set possible_keys. rendering m k = rendering m' k"
  shows "agrees mk m = agrees mk m'"
proof -
  have "(case dict_get m k of None \<Rightarrow> False
         | Some x \<Rightarrow> strip (py_str x) \<noteq> [] \<and> strip (py_str x) = v)
      = (case dict_get m' k of None \<Rightarrow> False
         | Some x \<Rightarrow> strip (py_str x) \<noteq> [] \<and> strip (py_str x) = v)"
    if "(k, v) \<in> set mk" for k v
  proof -
    from that assms(1) have "k \<in> set possible_keys" by force
    with assms(2) have "rendering m k = rendering m' k" by blast
    then show ?thesis by (auto simp: rendering_def split: option.splits)
  qed
  then show ?thesis
    unfolding agrees_def by (intro ball_cong refl) auto
qed

lemma find_candidate_rendering:
  assumes "fst ` set mk \<subseteq> set possible_keys"
      and "list_all2 same_rendering cs cs'"
  shows "map_option doc_id (find_candidate mk cs) = map_option doc_id (find_candidate mk cs')"
  using assms(2)
proof (induction rule: list_all2_induct)
  case Nil
  show ?case by simp
next
  case (Cons c cs c' cs')
  from Cons.hyps(1) have "agrees mk (metadata c) = agrees mk (metadata c')"
    and "doc_id c = doc_id c'"
    using agrees_rendering [OF assms(1)] by (auto simp: same_rendering_def)
  with Cons.IH show ?case
    by (simp only: find_candidate_Cons option.map split: if_splits) simp
qed

lemma candidates_rendering:
  assumes "list_all2 same_rendering ds ds'" and "same_rendering doc doc'"
  shows "list_all2 same_rendering
           (filter (\<lambda>c. uploader c = uploader doc \<and> doc_type c = t \<and> doc_id c \<noteq> doc_id doc) ds)
           (filter (\<lambda>c. uploader c = uploader doc' \<and> doc_type c = t \<and> doc_id c \<noteq> doc_id doc') ds')"
  using assms(1)
proof (induction rule: list_all2_induct)
  case Nil
  show ?case by simp
next
  case (Cons c cs c' cs')
  from Cons.hyps(1) assms(2)
  have "(uploader c = uploader doc \<and> doc_type c = t \<and> doc_id c \<noteq> doc_id doc)
      = (uploader c' = uploader doc' \<and> doc_type c' = t \<and> doc_id c' \<noteq> doc_id doc')"
    unfolding same_rendering_def by metis
  with Cons.hyps(1) Cons.IH show ?case by simp
qed

lemma match_types_rendering:
  assumes "list_all2 same_rendering (documents d) (documents d')"
      and "same_rendering doc doc'"
      and "fst ` set mk \<subseteq> set possible_keys"
  shows "match_types d doc mk ts acc = match_types d' doc' mk ts acc"
proof (induction ts arbitrary: acc)
  case Nil
  show ?case by simp
next
  case (Cons t ts)
  obtain found missing where acc: "acc = (found, missing)" by (cases acc)
  have ids: "doc_type doc = doc_type doc'" "doc_id doc = doc_id doc'"
    using assms(2) by (simp_all add: same_rendering_def)
  have "map_option doc_id (find_candidate mk (candidates_of d doc t))
      = map_option doc_id (find_candidate mk (candidates_of d' doc' t))"
    unfolding candidates_of_def
    by (rule find_candidate_rendering [OF assms(3) candidates_rendering [OF assms(1,2)]])
  then show ?case
    unfolding acc using Cons.IH ids
    by (auto split: option.splits)
qed

lemma run_matcher_rendering:
  assumes "list_all2 same_rendering (documents d) (documents d')"
      and "same_rendering doc doc'"
  shows "run_matcher d doc = run_matcher d' doc'"
proof -
  from assms(2) have r: "\<forall>k \<in> set possible_keys. rendering (metadata doc) k = rendering (metadata doc') k"
    by (simp add: same_rendering_def)
  have mk: "build_match_keys (metadata doc) = build_match_keys (metadata doc')"
    using r by (rule same_rendering_keys)
  have mt: "match_types d doc (build_match_keys (metadata doc')) required_types ([], [])
          = match_types d' doc' (build_match_keys (metadata doc')) required_types ([], [])"
    by (rule match_types_rendering [OF assms build_match_keys_subset])
  show ?thesis
    by (simp add: run_matcher_def mk mt)
qed

lemma match_key_iff:
  "(map_of (build_match_keys m) k = Some v)
     = (k \<in> set possible_keys \<and> rendering m k = Some v \<and> v \<noteq> [])"
  unfolding map_of_build_match_keys
  by (auto simp: rendering_def split: option.splits)

lemma in_build_match_keys:
  "(k, v) \<in> set (build_match_keys m) \<Longrightarrow> k \<in> set possible_keys \<and> rendering m k = Some v \<and> v \<noteq> []"
  by (auto simp: build_match_keys_def List.map_filter_def rendering_def split: option.splits if_splits)

lemma build_match_keys_member:
  assumes "k \<in> set possible_keys" "rendering m k = Some v" "v \<noteq> []"
  shows "(k, v) \<in> set (build_match_keys m)"
proof -
  from assms have "map_of (build_match_keys m) k = Some v"
    by (simp add: match_key_iff)
  then show ?thesis by (rule map_of_SomeD)
qed

lemma agrees_compared: "agrees (build_match_keys m) cm = compared_equal m cm"
proof
  assume a: "agrees (build_match_keys m) cm"
  show "compared_equal m cm"
    unfolding compared_equal_def
  proof
    fix k
    assume k: "k \<in> set possible_keys"
    show "case rendering m k of None \<Rightarrow> True | Some r \<Rightarrow> r = [] \<or> rendering cm k = Some r"
    proof (cases "rendering m k")
      case None
      then show ?thesis by simp
    next
      case (Some r)
      show ?thesis
      proof (cases "r = []")
        case True
        with Some show ?thesis by simp
      next
        case False
        with k Some have "(k, r) \<in> set (build_match_keys m)"
          by (rule build_match_keys_member)
        with a have "case dict_get cm k of None \<Rightarrow> False
                     | Some x \<Rightarrow> strip (py_str x) \<noteq> [] \<and> strip (py_str x) = r"
          unfolding agrees_def by blast
        then have "rendering cm k = Some r"
          by (simp add: rendering_def split: option.splits)
        with Some show ?thesis by simp
      qed
    qed
  qed
next
  assume c: "compared_equal m cm"
  show "agrees (build_match_keys m) cm"
    unfolding agrees_def
  proof (intro ballI, clarify)
    fix k v
    assume "(k, v) \<in> set (build_match_keys m)"
    then have kv: "k \<in> set possible_keys" "rendering m k = Some v" "v \<noteq> []"
      by (auto dest: in_build_match_keys)
    with c have "rendering cm k = Some v"
      unfolding compared_equal_def by force
    with kv(3) show "case dict_get cm k of None \<Rightarrow> False
                     | Some x \<Rightarrow> strip (py_str x) \<noteq> [] \<and> strip (py_str x) = v"
      by (auto simp: rendering_def split: option.splits)
  qed
qed

text \<open>
  Claim C10. The matcher compares trimmed string renderings and nothing else. The match
  keys are the candidate keys with a non-empty rendering in the source, with that
  rendering. Another type is reported as matched exactly when a different document of
  that type and uploader has, for each of these keys, the same rendering as the source,
  however the two values are stored; it is listed as missing exactly when there is no
  such document. Stores whose documents have the same renderings give the same result.
\<close>

theorem matching_by_string_rendering:
  assumes "run_matcher d doc = (mk, found, mt)"
  shows "(\<forall>k v. (map_of mk k = Some v)
                  = (k \<in> set possible_keys \<and> rendering (metadata doc) k = Some v \<and> v \<noteq> []))
       \<and> (\<forall>t. t \<noteq> doc_type doc \<longrightarrow>
              ((\<exists>i. map_of found t = Some (Some i, True))
                 = (\<exists>c \<in> set (documents d). doc_id c \<noteq> doc_id doc \<and> doc_type c = t
                       \<and> uploader c = uploader doc
                       \<and> compared_equal (metadata doc) (metadata c)))
            \<and> ((t \<in> set mt)
                 = (\<not> (\<exists>c \<in> set (documents d). doc_id c \<noteq> doc_id doc \<and> doc_type c = t
                       \<and> uploader c = uploader doc
                       \<and> compared_equal (metadata doc) (metadata c)))))
       \<and> (\<forall>d' doc'. list_all2 same_rendering (documents d) (documents d')
                      \<and> same_rendering doc doc' \<longrightarrow>
              run_matcher d' doc' = (mk, found, mt))"
proof -
  define res where "res = match_types d doc mk required_types ([], [])"
  from assms have mk: "mk = build_match_keys (metadata doc)"
    by (simp add: run_matcher_def Let_def split: prod.splits)
  from assms have fm: "found = fst res" "mt = snd res"
    by (auto simp: run_matcher_def Let_def res_def mk split: prod.splits)
  have all_types: "t \<in> set required_types" for t
    by (cases t) (simp_all add: required_types_def)
  have found: "map_of found t
     = Some (if doc_type doc = t then (Some (doc_id doc), True)
             else (case find_candidate mk (candidates_of d doc t) of
                     Some c \<Rightarrow> (Some (doc_id c), True)
                   | None \<Rightarrow> (None, False)))" for t
    unfolding fm res_def by (simp add: match_types_found all_types)
  have missing: "set mt = {t. doc_type doc \<noteq> t \<and> find_candidate mk (candidates_of d doc t) = None}"
    unfolding fm res_def by (auto simp: match_types_missing all_types)
  have ex: "(find_candidate mk (candidates_of d doc t) \<noteq> None)
     = (\<exists>c \<in> set (documents d). doc_id c \<noteq> doc_id doc \<and> doc_type c = t
                       \<and> uploader c = uploader doc
                       \<and> compared_equal (metadata doc) (metadata c))" for t
    unfolding find_candidate_None mk
    by (auto simp: agrees_compared candidates_of_def)
  have keys: "\<forall>k v. (map_of mk k = Some v)
                  = (k \<in> set possible_keys \<and> rendering (metadata doc) k = Some v \<and> v \<noteq> [])"
    unfolding mk by (simp add: match_key_iff)
  have other: "((\<exists>i. map_of found t = Some (Some i, True))
                 = (\<exists>c \<in> set (documents d). doc_id c \<noteq> doc_id doc \<and> doc_type c = t
                       \<and> uploader c = uploader doc
                       \<and> compared_equal (metadata doc) (metadata c)))
            \<and> ((t \<in> set mt)
                 = (\<not> (\<exists>c \<in> set (documents d). doc_id c \<noteq> doc_id doc \<and> doc_type c = t
                       \<and> uploader c = uploader doc
                       \<and> compared_equal (metadata doc) (metadata c))))"
    if "t \<noteq> doc_type doc" for t
  proof (cases "find_candidate mk (candidates_of d doc t)")
    case None
    with that ex [of t] show ?thesis by (simp add: found missing)
  next
    case (Some c0)
    with that ex [of t] show ?thesis by (simp add: found missing)
  qed
  have same: "run_matcher d' doc' = (mk, found, mt)"
    if "list_all2 same_rendering (documents d) (documents d') \<and> same_rendering doc doc'"
    for d' doc'
    using run_matcher_rendering [of d d' doc doc'] that assms by simp
  from keys other same show ?thesis by blast
qed

theorem matching_by_string_rendering_witness:
  "run_matcher example_db_bill example_invoice
       = ([(''hs_code'', ''8501''), (''value'', ''1250'')],
          [(Invoice, Some 1, True), (PackingList, Some 2, True), (BolAwb, None, False),
           (DeliveryOrder, None, False)],
          [BolAwb, DeliveryOrder])
   \<and> PackingList \<noteq> doc_type example_invoice \<and> BolAwb \<noteq> doc_type example_invoice
   \<and> dict_get (metadata example_invoice) ''value'' = Some (JInt 1250)
   \<and> dict_get (metadata example_packing_list) ''value'' = Some (JStr ''1250'')
   \<and> dict_get (metadata example_bill) ''value'' = Some (JInt 1251)
   \<and> (\<exists>c \<in> set (documents example_db_bill). doc_id c \<noteq> doc_id example_invoice
          \<and> doc_type c = PackingList \<and> uploader c = uploader example_invoice
          \<and> compared_equal (metadata example_invoice) (metadata c))
   \<and> \<not> compared_equal (metadata example_invoice) (metadata example_bill)
   \<and> list_all2 same_rendering (documents example_db_bill) (documents example_db_strings)
   \<and> same_rendering example_invoice (hd (documents example_db_strings))
   \<and> run_matcher example_db_strings (hd (documents example_db_strings))
       = ([(''hs_code'', ''8501''), (''value'', ''1250'')],
          [(Invoice, Some 1, True), (PackingList, Some 2, True), (BolAwb, None, False),
           (DeliveryOrder, None, False)],
          [BolAwb, DeliveryOrder])"
proof -
  let ?found = "[(Invoice, Some (1::nat), True), (PackingList, Some 2, True), (BolAwb, None, False),
           (DeliveryOrder, None, False)]"
  have k: "run_matcher example_db_bill example_invoice
       = ([(''hs_code'', ''8501''), (''value'', ''1250'')], ?found, [BolAwb, DeliveryOrder])"
    by code_simp
  have t: "PackingList \<noteq> doc_type example_invoice" "BolAwb \<noteq> doc_type example_invoice"
    by (simp_all add: example_invoice_def)
  have v: "dict_get (metadata example_invoice) ''value'' = Some (JInt 1250)"
    "dict_get (metadata example_packing_list) ''value'' = Some (JStr ''1250'')"
    "dict_get (metadata example_bill) ''value'' = Some (JInt 1251)"
    by (simp_all add: example_invoice_def example_packing_list_def example_bill_def dict_get_def)
  have h1: "list_all2 same_rendering (documents example_db_bill) (documents example_db_strings)"
    by code_simp
  have h2: "same_rendering example_invoice (hd (documents example_db_strings))"
    by code_simp
  have bill: "example_bill \<in> set (documents example_db_bill)"
    "doc_id example_bill \<noteq> doc_id example_invoice" "doc_type example_bill = BolAwb"
    "uploader example_bill = uploader example_invoice"
    by (simp_all add: example_db_bill_def example_bill_def example_invoice_def)
  note inst = matching_by_string_rendering [OF k]
  note types = inst [THEN conjunct2, THEN conjunct1, rule_format]
  note stores = inst [THEN conjunct2, THEN conjunct2, rule_format]
  have "(\<exists>i. map_of ?found PackingList = Some (Some i, True))
                 = (\<exists>c \<in> set (documents example_db_bill). doc_id c \<noteq> doc_id example_invoice
                       \<and> doc_type c = PackingList \<and> uploader c = uploader example_invoice
                       \<and> compared_equal (metadata example_invoice) (metadata c))"
    using types [OF t(1)] by (rule conjunct1)
  then have pos: "\<exists>c \<in> set (documents example_db_bill). doc_id c \<noteq> doc_id example_invoice
                       \<and> doc_type c = PackingList \<and> uploader c = uploader example_invoice
                       \<and> compared_equal (metadata example_invoice) (metadata c)"
    by simp
  have "(BolAwb \<in> set [BolAwb, DeliveryOrder])
                 = (\<not> (\<exists>c \<in> set (documents example_db_bill). doc_id c \<noteq> doc_id example_invoice
                       \<and> doc_type c = BolAwb \<and> uploader c = uploader example_invoice
                       \<and> compared_equal (metadata example_invoice) (metadata c)))"
    using types [OF t(2)] by (rule conjunct2)
  then have "\<not> (\<exists>c \<in> set (documents example_db_bill). doc_id c \<noteq> doc_id example_invoice
                       \<and> doc_type c = BolAwb \<and> uploader c = uploader example_invoice
                       \<and> compared_equal (metadata example_invoice) (metadata c))"
    by simp
  with bill have neg: "\<not> compared_equal (metadata example_invoice) (metadata example_bill)"
    by blast
  have inv: "run_matcher example_db_strings (hd (documents example_db_strings))
       = ([(''hs_code'', ''8501''), (''value'', ''1250'')], ?found, [BolAwb, DeliveryOrder])"
    using h1 h2 by (intro stores conjI)
  show ?thesis
    by (intro conjI k t v pos neg h1 h2 inv)
qed

section \<open>The pipeline task\<close>

lemma status_writes_simps:
  "status_writes [] = []"
  "status_writes (StatusSaved s # evs) = s # status_writes evs"
  "status_writes (OcrCalled # evs) = status_writes evs"
  "status_writes (AuditAttempt a # evs) = status_writes evs"
  by (simp_all add: status_writes_def)

lemma status_writes_append: "status_writes (xs @ ys) = status_writes xs @ status_writes ys"
  by (simp add: status_writes_def List.map_filter_def)

lemma choose_text_writes: "status_writes (fst (choose_text x oe)) = []"
  by (simp add: choose_text_def status_writes_simps split: sum.splits)

lemma merge_step_writes: "status_writes (fst (snd (merge_step e d df parsed))) = []"
  by (simp add: merge_step_def status_writes_simps split: option.splits prod.splits)

lemma task_body_writes:
  "status_writes (fst (snd (task_body e d df))) = []
   \<or> status_writes (fst (snd (task_body e d df))) = [Done]"
proof -
  obtain ev1 chosen where c: "choose_text (extract_text_with_pymupdf (pdf_pages e)) (ocr e) = (ev1, chosen)"
    by (cases "choose_text (extract_text_with_pymupdf (pdf_pages e)) (ocr e)")
  then have w1: "status_writes ev1 = []"
    using choose_text_writes [of "extract_text_with_pymupdf (pdf_pages e)" "ocr e"] by simp
  show ?thesis
  proof (cases chosen)
    case (Inl x)
    with c w1 show ?thesis by (simp add: task_body_def)
  next
    case (Inr extracted)
    show ?thesis
    proof (cases "save_done_error e")
      case (Some x)
      with c w1 Inr show ?thesis by (simp add: task_body_def)
    next
      case None
      let ?d1 = "update_file d (file_id df)
                   (\<lambda>f. f\<lparr>extraction_status := Done, extracted_text := Some (take 100000 extracted)\<rparr>)"
      obtain d2 ev3 r where m: "merge_step e ?d1 df (parse_text_for_metadata extracted) = (d2, ev3, r)"
        by (cases "merge_step e ?d1 df (parse_text_for_metadata extracted)")
      then have w3: "status_writes ev3 = []"
        using merge_step_writes [of e ?d1 df "parse_text_for_metadata extracted"] by simp
      from c Inr None m w1 w3 show ?thesis
        by (simp add: task_body_def Let_def status_writes_append status_writes_simps
                 split: option.splits prod.splits sum.splits)
    qed
  qed
qed

text \<open>
  Claim C7, as the code has it. The statuses one run stores for the file are, in order,
  running, then possibly done, then possibly failed: the run never stores pending, never
  stores running after done or failed, and stores failed last. Done followed by failed
  is among the possible sequences.
\<close>

theorem status_transitions:
  "status_writes (fst (snd (extract_text_and_parse_task e d i)))
     \<in> {[], [Running], [Running, Done], [Running, Failed], [Running, Done, Failed]}"
proof (cases "lookup_error e = None \<and> save_running_error e = None \<and> file_path_error e = None")
  case False
  then show ?thesis
    by (auto simp: extract_text_and_parse_task_def Let_def status_writes_simps
             split: option.splits)
next
  case ok: True
  show ?thesis
  proof (cases "find (\<lambda>f. file_id f = i) (files d)")
    case None
    with ok show ?thesis
      by (simp add: extract_text_and_parse_task_def status_writes_simps)
  next
    case (Some df)
    let ?d1 = "update_file d i (\<lambda>f. f\<lparr>extraction_status := Running\<rparr>)"
    obtain d2 ev2 r where b: "task_body e ?d1 df = (d2, ev2, r)"
      by (cases "task_body e ?d1 df")
    have w: "status_writes ev2 = [] \<or> status_writes ev2 = [Done]"
      using task_body_writes [of e ?d1 df] b by simp
    from ok Some b w show ?thesis
      by (auto simp: extract_text_and_parse_task_def Let_def status_writes_append
                     status_writes_simps
               split: option.splits sum.splits)
  qed
qed

lemma choose_text_returns:
  assumes "tmpdir_error oe = None"
  shows "\<exists>ev x. choose_text t oe = (ev, Inr x)"
proof -
  from assms have "\<exists>y. ocr_pdf_images oe = Inr y"
    by (cases "image_text oe") (simp_all add: ocr_pdf_images_def)
  then obtain y where "ocr_pdf_images oe = Inr y" ..
  then show ?thesis by (simp add: choose_text_def)
qed

lemma merge_step_returns:
  "save_metadata_error e = None \<Longrightarrow> snd (snd (merge_step e d df p)) = None"
  by (simp add: merge_step_def split: option.splits prod.splits)

lemma validation_fetch_raises:
  "fetch_error ve = Some x \<Longrightarrow> snd (run_validation_for_document ve d i) = Inl x"
  by (simp add: run_validation_for_document_def)

lemma task_body_validation_raises:
  assumes "tmpdir_error (ocr e) = None" "save_done_error e = None"
      and "save_metadata_error e = None" "fetch_error (validation e) = Some x"
  shows "snd (snd (task_body e d df)) = Inl x
       \<and> status_writes (fst (snd (task_body e d df))) = [Done]"
proof -
  obtain ev1 t where c: "choose_text (extract_text_with_pymupdf (pdf_pages e)) (ocr e) = (ev1, Inr t)"
    using choose_text_returns [OF assms(1)] by blast
  then have w1: "status_writes ev1 = []"
    using choose_text_writes [of "extract_text_with_pymupdf (pdf_pages e)" "ocr e"] by simp
  let ?d1 = "update_file d (file_id df)
               (\<lambda>f. f\<lparr>extraction_status := Done, extracted_text := Some (take 100000 t)\<rparr>)"
  obtain d2 ev3 where m: "merge_step e ?d1 df (parse_text_for_metadata t) = (d2, ev3, None)"
    using merge_step_returns [OF assms(3), of ?d1 df "parse_text_for_metadata t"]
    by (cases "merge_step e ?d1 df (parse_text_for_metadata t)") auto
  then have w3: "status_writes ev3 = []"
    using merge_step_writes [of e ?d1 df "parse_text_for_metadata t"] by simp
  obtain d3 where v: "run_validation_for_document (validation e) d2 (document df) = (d3, Inl x)"
    using validation_fetch_raises [OF assms(4), of d2 "document df"]
    by (cases "run_validation_for_document (validation e) d2 (document df)") auto
  show ?thesis
    by (simp add: task_body_def c assms(2) m v w1 w3 status_writes_append status_writes_simps)
qed

lemma task_validation_raises:
  assumes "lookup_error e = None" "find (\<lambda>f. file_id f = i) (files d) = Some df"
      and "save_running_error e = None" "file_path_error e = None"
      and "tmpdir_error (ocr e) = None" "save_done_error e = None"
      and "save_metadata_error e = None" "fetch_error (validation e) = Some x"
      and "save_failed_error e = None"
  shows "status_writes (fst (snd (extract_text_and_parse_task e d i))) = [Running, Done, Failed]
       \<and> snd (snd (extract_text_and_parse_task e d i)) = Inr (TaskFailed (exn_text x))"
proof -
  let ?d1 = "update_file d i (\<lambda>f. f\<lparr>extraction_status := Running\<rparr>)"
  obtain d2 ev2 where b: "task_body e ?d1 df = (d2, ev2, Inl x)" and w: "status_writes ev2 = [Done]"
    using task_body_validation_raises [OF assms(5,6,7,8), of ?d1 df]
    by (cases "task_body e ?d1 df") auto
  show ?thesis
    by (simp add: extract_text_and_parse_task_def assms(1,2,3,4,9) b w status_writes_append
                  status_writes_simps)
qed

text \<open>
  Claim C7 as stated fails: when the validation run raises after the text was stored,
  the same run stores done and then failed.
\<close>

theorem status_done_then_failed:
  "status_writes (fst (snd (extract_text_and_parse_task
      (quiet_env\<lparr>validation := quiet_venv\<lparr>fetch_error := Some (Exn ''database is locked'')\<rparr>\<rparr>)
      example_db 5))) = [Running, Done, Failed]"
proof -
  have f: "find (\<lambda>f. file_id f = 5) (files example_db) = Some (example_file 5 ''hs_code'')"
    by (simp add: example_db_def example_file_def)
  show ?thesis
    using task_validation_raises [OF _ f, of
        "quiet_env\<lparr>validation := quiet_venv\<lparr>fetch_error := Some (Exn ''database is locked'')\<rparr>\<rparr>"
        "Exn ''database is locked''"]
    by (simp add: quiet_env_def quiet_venv_def quiet_ocr_def)
qed

lemma task_path_raises:
  assumes "lookup_error e = None" "find (\<lambda>f. file_id f = i) (files d) = Some df"
      and "save_running_error e = None" "file_path_error e = Some x"
  shows "extract_text_and_parse_task e d i
           = (update_file d i (\<lambda>f. f\<lparr>extraction_status := Running\<rparr>), [StatusSaved Running], Inl x)"
  by (simp add: extract_text_and_parse_task_def assms)

text \<open>
  Claim C8. Reading the path of the file happens before the \<^verbatim>\<open>try\<close> block: when it
  raises, the exception leaves the task, no failure payload is returned and the status
  stays at running.
\<close>

theorem exception_leaves_task:
  "snd (snd (extract_text_and_parse_task
      (quiet_env\<lparr>file_path_error := Some (Exn ''The file attribute has no file associated with it.'')\<rparr>)
      example_db 5)) = Inl (Exn ''The file attribute has no file associated with it.'')
   \<and> fst (snd (extract_text_and_parse_task
      (quiet_env\<lparr>file_path_error := Some (Exn ''The file attribute has no file associated with it.'')\<rparr>)
      example_db 5)) = [StatusSaved Running]
   \<and> map extraction_status (files (fst (extract_text_and_parse_task
      (quiet_env\<lparr>file_path_error := Some (Exn ''The file attribute has no file associated with it.'')\<rparr>)
      example_db 5))) = [Running, Pending, Pending, Pending]"
proof -
  have f: "find (\<lambda>f. file_id f = 5) (files example_db) = Some (example_file 5 ''hs_code'')"
    by (simp add: example_db_def example_file_def)
  have "extract_text_and_parse_task
      (quiet_env\<lparr>file_path_error := Some (Exn ''The file attribute has no file associated with it.'')\<rparr>)
      example_db 5
    = (update_file example_db 5 (\<lambda>f. f\<lparr>extraction_status := Running\<rparr>), [StatusSaved Running],
       Inl (Exn ''The file attribute has no file associated with it.''))"
    by (rule task_path_raises [OF _ f]) (simp_all add: quiet_env_def)
  then show ?thesis
    by (simp add: update_file_def example_db_def example_file_def)
qed

text \<open>When the lookup, the first status write, the path and the status write of the
  handler do not raise, the task returns a payload whatever else raises.\<close>

lemma failures_in_body_absorbed:
  assumes "lookup_error e = None" "save_running_error e = None" "file_path_error e = None"
      and "save_failed_error e = None"
  shows "\<exists>p. snd (snd (extract_text_and_parse_task e d i)) = Inr p"
proof (cases "find (\<lambda>f. file_id f = i) (files d)")
  case None
  with assms show ?thesis by (simp add: extract_text_and_parse_task_def)
next
  case (Some df)
  let ?d1 = "update_file d i (\<lambda>f. f\<lparr>extraction_status := Running\<rparr>)"
  obtain d2 ev2 r where b: "task_body e ?d1 df = (d2, ev2, r)"
    by (cases "task_body e ?d1 df")
  with assms Some show ?thesis
    by (cases r) (simp_all add: extract_text_and_parse_task_def)
qed

section \<open>The HS code rule\<close>

lemma digit_is_word: "is_digit c \<Longrightarrow> is_word c"
  by (simp add: is_digit_def is_word_def Let_def)

lemma ord_colon: "ord CHR '':'' = 58"
  by (simp add: ord_def)

lemma sep_not_digit: "colon_or_space c \<Longrightarrow> \<not> is_digit c"
  by (auto simp: colon_or_space_def is_digit_def is_space_def Let_def ord_colon)

lemma lower_HS: "ascii_lower CHR ''H'' = CHR ''h''" "ascii_lower CHR ''S'' = CHR ''s''"
  by code_simp+

lemma word_hs: "is_word CHR ''h''"
  by code_simp

lemma letter_h_is_word: "ascii_lower c = CHR ''h'' \<Longrightarrow> is_word c"
proof (cases "is_upper_AZ c")
  case True
  then show ?thesis by (simp add: is_upper_AZ_def is_word_def Let_def)
next
  case False
  assume "ascii_lower c = CHR ''h''"
  with False have "c = CHR ''h''" by (simp add: ascii_lower_def)
  then show ?thesis by (simp add: word_hs)
qed

lemma try_down_None:
  "(\<And>c. lo \<le> c \<Longrightarrow> c \<le> n \<Longrightarrow> f c = None) \<Longrightarrow> try_down f lo n = None"
  by (induction n) auto

lemma try_down_top:
  assumes "lo \<le> n" and "\<And>c. lo \<le> c \<Longrightarrow> c < n \<Longrightarrow> f c = None"
  shows "try_down f lo n = f n"
proof (cases n)
  case 0
  with assms(1) show ?thesis by simp
next
  case (Suc m)
  have "try_down f lo m = None"
    by (rule try_down_None) (simp add: assms(2) Suc)
  with assms(1) Suc show ?thesis by (simp split: option.splits)
qed

lemma search_from_first_at: "search_from r prev s = first_at (match_at r) prev s"
  by (induction s arbitrary: prev) (simp_all split: option.splits)

lemma first_at_map:
  "(\<And>p t. map_option g (f p t) = f' p t) \<Longrightarrow> map_option g (first_at f prev s) = first_at f' prev s"
proof (induction s arbitrary: prev)
  case Nil
  then show ?case by simp
next
  case (Cons c cs)
  have fe: "f' prev (c # cs) = map_option g (f prev (c # cs))"
    by (simp add: Cons.prems)
  have ih: "map_option g (first_at f (Some c) cs) = first_at f' (Some c) cs"
    by (rule Cons.IH) (rule Cons.prems)
  show ?case
    by (cases "f prev (c # cs)") (simp_all add: fe ih)
qed


lemma advance_simp:
  "advance c (p, xs, g) = (if c = 0 then p else Some (xs ! (c - 1)), drop c xs, g)"
  by (simp add: advance_def)

lemma word_boundary_digits:
  "is_digit a \<Longrightarrow> word_boundary (Some a) rest = (\<not> before_word rest)"
  by (auto simp: word_boundary_def before_word_def digit_is_word split: list.splits)

lemma run_nth: "i < length (takeWhile P xs) \<Longrightarrow> P (xs ! i)"
  by (metis nth_mem set_takeWhileD takeWhile_nth)

lemma run_le: "length (takeWhile P xs) \<le> length xs"
  by (rule length_takeWhile_le)

lemma before_word_drop:
  "c < length (takeWhile is_digit xs) \<Longrightarrow> before_word (drop c xs)"
proof -
  assume a: "c < length (takeWhile is_digit xs)"
  then have "c < length xs" using run_le [of is_digit xs] by simp
  then have "drop c xs = xs ! c # drop (Suc c) xs"
    by (simp add: Cons_nth_drop_Suc)
  moreover have "is_digit (xs ! c)" using a by (rule run_nth)
  ultimately show ?thesis by (simp add: before_word_def digit_is_word)
qed

lemma digits_then_boundary:
  assumes "0 < lo" "lo \<le> hi"
  shows "rmatch (RSeq (RGroup (RRep is_digit lo (Some hi) True)) RWordB) Some (p, after, g0)
       = (let ds = takeWhile is_digit after
          in if lo \<le> length ds \<and> length ds \<le> hi \<and> \<not> before_word (dropWhile is_digit after)
             then Some (Some (last ds), dropWhile is_digit after, Some ds) else None)"
proof -
  define ds where "ds = takeWhile is_digit after"
  define n where "n = min hi (length ds)"
  define F where "F = (\<lambda>c. case advance c (p, after, g0) of (prev', rest', _) \<Rightarrow>
                        rmatch RWordB Some
                          (prev', rest', Some (take (length after - length rest') after)))"
  have unfold: "rmatch (RSeq (RGroup (RRep is_digit lo (Some hi) True)) RWordB) Some (p, after, g0)
                  = (if n < lo then None else try_down F lo n)"
    by (simp add: run_length_def n_def ds_def F_def Let_def)
  have F_def: "F c = (if word_boundary (if c = 0 then p else Some (after ! (c - 1))) (drop c after)
                         then Some (if c = 0 then p else Some (after ! (c - 1)), drop c after,
                                    Some (take (length after - length (drop c after)) after))
                         else None)" for c
    by (simp add: F_def advance_simp)
  have len: "length ds \<le> length after"
    unfolding ds_def by (rule run_le)
  show ?thesis
  proof (cases "n < lo")
    case True
    with assms have "length ds < lo" by (simp add: n_def min_def split: if_splits)
    with True unfold show ?thesis by (simp add: ds_def Let_def)
  next
    case False
    then have lo_n: "lo \<le> n" by simp
    have below: "F c = None" if "lo \<le> c" "c < n" for c
    proof -
      from that assms have c: "0 < c" "c - 1 < length ds" "c < length ds"
        by (auto simp: n_def)
      have "is_digit (after ! (c - 1))" using c(2) unfolding ds_def by (rule run_nth)
      moreover have "before_word (drop c after)"
        using c(3) unfolding ds_def by (rule before_word_drop)
      ultimately show ?thesis using c(1) by (simp add: F_def word_boundary_digits)
    qed
    have top: "try_down F lo n = F n"
      using lo_n below by (rule try_down_top)
    from lo_n assms have n0: "0 < n" "n - 1 < length ds" by (auto simp: n_def)
    have dig: "is_digit (after ! (n - 1))" using n0(2) unfolding ds_def by (rule run_nth)
    have start: "rmatch (RSeq (RGroup (RRep is_digit lo (Some hi) True)) RWordB) Some (p, after, g0)
                   = F n"
      using unfold top False by simp
    have Fn: "F n = (if \<not> before_word (drop n after)
                     then Some (Some (after ! (n - 1)), drop n after,
                                Some (take (length after - length (drop n after)) after))
                     else None)"
      using n0(1) dig by (simp add: F_def word_boundary_digits)
    show ?thesis
    proof (cases "length ds \<le> hi")
      case True
      then have n: "n = length ds" by (simp add: n_def)
      have dr: "drop n after = dropWhile is_digit after"
        unfolding n ds_def by (simp add: dropWhile_eq_drop)
      have ln: "length after - length (drop n after) = n"
        using len n by simp
      have tk: "take n after = ds"
        unfolding n ds_def by (simp add: takeWhile_eq_take [symmetric])
      have ne: "ds \<noteq> []" using n0 by auto
      have lst: "after ! (n - 1) = last ds"
        using ne n0(2) unfolding n ds_def by (simp add: last_conv_nth takeWhile_nth)
      have "F n = (if \<not> before_word (dropWhile is_digit after)
                   then Some (Some (last ds), dropWhile is_digit after, Some ds) else None)"
        using ln tk unfolding Fn lst dr by simp
      moreover have "lo \<le> length ds \<and> length ds \<le> hi"
        using True lo_n n by simp
      ultimately show ?thesis
        unfolding start by (simp add: ds_def Let_def)
    next
      case False
      then have n: "n = hi" "hi < length ds" by (simp_all add: n_def)
      have "before_word (drop n after)"
        using n(2) unfolding n(1) ds_def by (rule before_word_drop)
      then have "F n = None" unfolding Fn by simp
      with False show ?thesis
        unfolding start by (simp add: ds_def Let_def)
    qed
  qed
qed

lemma takeWhile_digit_sep: "colon_or_space (xs ! c) \<Longrightarrow> c < length xs \<Longrightarrow> takeWhile is_digit (drop c xs) = []"
proof -
  assume a: "colon_or_space (xs ! c)" "c < length xs"
  then have "drop c xs = xs ! c # drop (Suc c) xs"
    by (simp add: Cons_nth_drop_Suc)
  with a(1) show ?thesis by (simp add: sep_not_digit)
qed

lemma separators_then_digits:
  assumes "0 < lo" "lo \<le> hi"
  shows "rmatch (RSeq (RRep colon_or_space 0 None True)
                      (RSeq (RGroup (RRep is_digit lo (Some hi) True)) RWordB)) Some (p, rest, g0)
       = (let after = dropWhile colon_or_space rest;
              ds = takeWhile is_digit after
          in if lo \<le> length ds \<and> length ds \<le> hi \<and> \<not> before_word (dropWhile is_digit after)
             then Some (Some (last ds), dropWhile is_digit after, Some ds) else None)"
proof -
  define n where "n = length (takeWhile colon_or_space rest)"
  define R where "R = RSeq (RGroup (RRep is_digit lo (Some hi) True)) RWordB"
  define F where "F = (\<lambda>c. rmatch R Some (advance c (p, rest, g0)))"
  have unfold: "rmatch (RSeq (RRep colon_or_space 0 None True)
                      (RSeq (RGroup (RRep is_digit lo (Some hi) True)) RWordB)) Some (p, rest, g0)
                  = try_down F 0 n"
    by (simp add: run_length_def n_def F_def R_def Let_def)
  have Fc: "F c = (let ds = takeWhile is_digit (drop c rest)
          in if lo \<le> length ds \<and> length ds \<le> hi \<and> \<not> before_word (dropWhile is_digit (drop c rest))
             then Some (Some (last ds), dropWhile is_digit (drop c rest), Some ds) else None)" for c
    unfolding F_def R_def advance_simp by (rule digits_then_boundary [OF assms])
  have below: "F c = None" if "c < n" for c
  proof -
    from that have "colon_or_space (rest ! c)" unfolding n_def by (rule run_nth)
    moreover from that have "c < length rest"
      using run_le [of colon_or_space rest] by (simp add: n_def)
    ultimately have "takeWhile is_digit (drop c rest) = []" by (rule takeWhile_digit_sep)
    with assms(1) show ?thesis by (simp add: Fc)
  qed
  have top: "try_down F 0 n = F n"
    by (rule try_down_top) (simp_all add: below)
  have dr: "drop n rest = dropWhile colon_or_space rest"
    by (simp add: n_def dropWhile_eq_drop)
  have Fn: "F n = (let after = dropWhile colon_or_space rest;
              ds = takeWhile is_digit after
          in if lo \<le> length ds \<and> length ds \<le> hi \<and> \<not> before_word (dropWhile is_digit after)
             then Some (Some (last ds), dropWhile is_digit after, Some ds) else None)"
    unfolding Fc dr by (simp add: Let_def)
  show ?thesis
    unfolding unfold top Fn ..
qed

lemma hs_re_unfold:
  "hs_re = RSeq RWordB
             (RSeq (RSeq (RChar (\<lambda>c. ascii_lower c = CHR ''h'')) (RChar (\<lambda>c. ascii_lower c = CHR ''s'')))
                   (RSeq (RRep colon_or_space 0 None True)
                         (RSeq (RGroup (RRep is_digit 4 (Some 10) True)) RWordB)))"
  by (simp add: hs_re_def ilit_def lower_HS)

lemma hs_re_here:
  "map_option (\<lambda>st. snd (snd st)) (rmatch hs_re Some (prev, s, None))
     = map_option Some (labelled_hs_here prev s)"
proof (cases s)
  case Nil
  then show ?thesis by (simp add: hs_re_unfold labelled_hs_here_def)
next
  case (Cons h t)
  note s1 = Cons
  show ?thesis
  proof (cases t)
    case Nil
    with s1 show ?thesis by (simp add: hs_re_unfold labelled_hs_here_def)
  next
    case (Cons s' rest)
    show ?thesis
    proof (cases "ascii_lower h = CHR ''h'' \<and> ascii_lower s' = CHR ''s''")
      case False
      with s1 Cons show ?thesis by (auto simp: hs_re_unfold labelled_hs_here_def)
    next
      case True
      then have "is_word h" by (simp add: letter_h_is_word)
      then have wb: "word_boundary prev (h # s' # rest) = (\<not> after_word prev)"
        by (auto simp: word_boundary_def after_word_def split: option.splits)
      have sd: "rmatch (RSeq (RRep colon_or_space 0 None True)
                      (RSeq (RGroup (RRep is_digit 4 (Some 10) True)) RWordB)) Some (Some s', rest, None)
       = (let after = dropWhile colon_or_space rest;
              ds = takeWhile is_digit after
          in if 4 \<le> length ds \<and> length ds \<le> 10 \<and> \<not> before_word (dropWhile is_digit after)
             then Some (Some (last ds), dropWhile is_digit after, Some ds) else None)"
        by (rule separators_then_digits) simp_all
      have "rmatch hs_re Some (prev, s, None)
          = (if \<not> after_word prev
             then rmatch (RSeq (RRep colon_or_space 0 None True)
                      (RSeq (RGroup (RRep is_digit 4 (Some 10) True)) RWordB)) Some (Some s', rest, None)
             else None)"
        unfolding hs_re_unfold s1 Cons using True wb by simp
      then show ?thesis
        unfolding sd using True by (simp add: labelled_hs_here_def s1 Cons Let_def)
    qed
  qed
qed

lemma hs_fallback_here:
  "map_option (\<lambda>st. snd (snd st)) (rmatch hs_fallback_re Some (prev, s, None))
     = map_option Some (six_digits_here prev s)"
proof -
  have d: "rmatch (RSeq (RGroup (RRep is_digit 6 (Some 6) True)) RWordB) Some (prev, s, None)
       = (let ds = takeWhile is_digit s
          in if 6 \<le> length ds \<and> length ds \<le> 6 \<and> \<not> before_word (dropWhile is_digit s)
             then Some (Some (last ds), dropWhile is_digit s, Some ds) else None)"
    by (rule digits_then_boundary) simp_all
  have u: "rmatch hs_fallback_re Some (prev, s, None)
         = (if word_boundary prev s
            then rmatch (RSeq (RGroup (RRep is_digit 6 (Some 6) True)) RWordB) Some (prev, s, None)
            else None)"
    by (simp add: hs_fallback_re_def)
  show ?thesis
  proof (cases "length (takeWhile is_digit s) = 6")
    case True
    then obtain a t where s: "s = a # t" by (cases s) auto
    with True have "is_digit a" by (auto split: if_splits)
    then have "word_boundary prev s = (\<not> after_word prev)"
      by (auto simp: s word_boundary_def after_word_def digit_is_word split: option.splits)
    with True show ?thesis
      unfolding u d by (simp add: six_digits_here_def Let_def)
  next
    case False
    then have "rmatch (RSeq (RGroup (RRep is_digit 6 (Some 6) True)) RWordB) Some (prev, s, None) = None"
      unfolding d Let_def by auto
    with False show ?thesis
      unfolding u by (simp add: six_digits_here_def Let_def)
  qed
qed


lemma re_search_group:
  assumes "\<And>prev s. map_option (\<lambda>st. snd (snd st)) (rmatch r Some (prev, s, None))
                        = map_option Some (f prev s)"
  shows "map_option group1 (re_search r s) = first_at f None s"
proof -
  have "map_option group1 (match_at r p t) = f p t" for p t
    using assms [of p t]
    by (cases "rmatch r Some (p, t, None)"; cases "f p t")
       (auto simp: match_at_def group1_def split: prod.splits)
  then have "map_option group1 (first_at (match_at r) None s) = first_at f None s"
    by (rule first_at_map)
  then show ?thesis
    by (simp add: re_search_def search_from_first_at)
qed

lemma parse_hs_code_rule: "parse_hs_code s = hs_code_rule s"
proof -
  have a: "map_option group1 (re_search hs_re s) = first_at labelled_hs_here None s"
    by (rule re_search_group) (rule hs_re_here)
  have b: "map_option group1 (re_search hs_fallback_re s) = first_at six_digits_here None s"
    by (rule re_search_group) (rule hs_fallback_here)
  show ?thesis
    unfolding parse_hs_code_def hs_code_rule_def a [symmetric] b [symmetric]
    by (simp split: option.splits)
qed

lemma dict_get_put:
  "dict_get (put k r res) k' = (if k' = k \<and> r \<noteq> None then r else dict_get res k')"
  by (cases r) (simp_all add: put_def dict_get_def map_of_dict_set)

lemma hs_code_rule_Nil: "hs_code_rule [] = None"
  by (simp add: hs_code_rule_def labelled_hs_here_def six_digits_here_def)

lemma parsed_hs_code:
  "dict_get (parse_text_for_metadata text) ''hs_code'' = parse_hs_code (normalize_ws text)"
proof (cases "text = []")
  case True
  then show ?thesis
    by (simp add: parse_text_for_metadata_def dict_get_def normalize_ws_def
                  parse_hs_code_rule hs_code_rule_Nil)
next
  case False
  then show ?thesis
    by (simp add: parse_text_for_metadata_def Let_def dict_get_put)
       (simp add: dict_get_def)
qed

text \<open>
  Claim C5, as the code has it. The \<^verbatim>\<open>hs_code\<close> of the parser is the digits of the leftmost
  labelled code in the normalized text: the letters H and S in either case, starting at a
  word boundary, then any colons and whitespace, then 4 to 10 digits that end at a word
  boundary. When there is none it is the leftmost run of exactly 6 digits between word
  boundaries, and when there is none either the key is left out.
\<close>

theorem hs_code_extraction:
  "dict_get (parse_text_for_metadata text) ''hs_code'' = hs_code_rule (normalize_ws text)"
  by (simp add: parsed_hs_code parse_hs_code_rule)

text \<open>
  Claim C5 as stated fails: in \<^verbatim>\<open>THS1234\<close> and in \<^verbatim>\<open>HS1234kg\<close> the letters H and S are
  followed by four digits, but the label does not start, or the digits do not end, at a
  word boundary, and the parser gives no \<^verbatim>\<open>hs_code\<close>.
\<close>

theorem hs_code_stated_counterexample:
  "dict_get (parse_text_for_metadata ''THS1234'') ''hs_code'' = None
   \<and> stated_hs_code (normalize_ws ''THS1234'') = Some ''1234''
   \<and> dict_get (parse_text_for_metadata ''HS1234kg'') ''hs_code'' = None
   \<and> stated_hs_code (normalize_ws ''HS1234kg'') = Some ''1234''"
proof -
  have "hs_code_rule (normalize_ws ''THS1234'') = None"
    by code_simp
  moreover have "hs_code_rule (normalize_ws ''HS1234kg'') = None"
    by code_simp
  moreover have "stated_hs_code (normalize_ws ''THS1234'') = Some ''1234''"
    by code_simp
  moreover have "stated_hs_code (normalize_ws ''HS1234kg'') = Some ''1234''"
    by code_simp
  ultimately show ?thesis
    by (simp add: parsed_hs_code parse_hs_code_rule)
qed

section \<open>The invoice example\<close>

lemma invoice_example:
  "parse_text_for_metadata ''Invoice Consignee: ABC Trading LLC  HS: 8501 Value 1,250.00 USD''
     = [(''hs_code'', ''8501''), (''currency'', ''USD''), (''value'', ''8501''),
        (''consignee'', ''ABC Trading LLC'')]"
  by code_simp

text \<open>
  Claim C4, as the code has it. On the example text the parser returns the HS code 8501,
  the currency USD and the consignee as stated, and the value 8501: the first amount-like
  token of the text is the HS code itself. The numeric cleanup of \<^verbatim>\<open>1,250.00\<close> does give
  \<^verbatim>\<open>1250.00\<close>.
\<close>

theorem invoice_example_parse:
  "parse_text_for_metadata ''Invoice Consignee: ABC Trading LLC  HS: 8501 Value 1,250.00 USD''
     = [(''hs_code'', ''8501''), (''currency'', ''USD''), (''value'', ''8501''),
        (''consignee'', ''ABC Trading LLC'')]
   \<and> clean_value ''1,250.00'' = ''1250.00''"
proof -
  have "clean_value ''1,250.00'' = ''1250.00''"
    by code_simp
  with invoice_example show ?thesis by simp
qed

text \<open>
  Claim C4 as stated fails: the value parsed from the example text is not
  \<^verbatim>\<open>1250.00\<close>.
\<close>

theorem invoice_example_value:
  "dict_get (parse_text_for_metadata
       ''Invoice Consignee: ABC Trading LLC  HS: 8501 Value 1,250.00 USD'') ''value''
     \<noteq> Some ''1250.00''"
  unfolding invoice_example by (simp add: dict_get_def)

end
